theory Spec2Isabelle
  imports Complex_Main "HOL-Library.Code_Target_Numeral"
begin

section \<open>Data model of api/server.js\<close>

text \<open>
  The attestation server keeps three PostgreSQL tables (the schema that ships with
  server.js): \<open>visits\<close>, \<open>server_challenges\<close> and \<open>visit_events\<close>. A table is the list
  of its rows; a statement that PostgreSQL rejects (a parameter it cannot read, a primary
  key, a foreign key or a unique index that is violated) is a thrown exception, written
  \<open>Inl Thrown\<close>.

  Modelling decisions, valid for the whole theory:
  \<^item> a JavaScript number is modelled by the real number that \<open>String\<close> prints for it
    (its shortest decimal that reads back as the same double); comparison is that of
    the reals, and \<open>Number_toString\<close> below is ECMAScript's \<open>Number::toString\<close> on
    such decimals. \<open>insertEvent\<close> takes the rendering from the environment
    (\<open>String_num\<close>), so its theorems hold for every rendering;
  \<^item> a timestamp is an \<open>int\<close> (milliseconds); \<open>Date.now()\<close> and SQL \<open>NOW()\<close> of one
    request are the parameter \<open>now\<close>;
  \<^item> a \<open>uuid\<close> is the sixteen-byte value PostgreSQL stores, whatever its spelling.
    A text reaches a \<open>uuid\<close> column through PostgreSQL's reader \<open>uuid_in\<close>, which
    throws on a text that is no UUID. \<open>challengeId\<close> of a parsed body is the value its
    text denotes: \<open>z.string().uuid()\<close> admits only texts that PostgreSQL reads.
    \<open>crypto.randomUUID()\<close> and \<open>crypto.randomBytes\<close> are parameters of the handler
    that calls them;
  \<^item> a string is the list of the bytes of its UTF-8 encoding; \<open>utf16_length\<close> is
    JavaScript's \<open>length\<close>. \<open>trim\<close>, \<open>toLowerCase\<close> and SQL \<open>LOWER\<close> are Unicode
    tables of the JavaScript engine and of the database's locale: they are parameters;
  \<^item> PostgreSQL refuses a text parameter that contains a NUL character and a
    timestamp it cannot read: \<open>text_in\<close> and \<open>timestamptz_in\<close> say which it accepts;
  \<^item> the file system, the base64 decoder and node's crypto module are parameters;
    the crypto functions may throw. All parameters are collected in the record \<open>env\<close>;
  \<^item> the database is reachable: a statement throws only for the reasons above;
  \<^item> a request body is a typed record, so the only schema failures are those of
    lengths, ranges and formats; the \<open>details\<close> of the "Invalid payload" answer are
    left out;
  \<^item> a handler runs from its first statement to its answer, except where a definition
    says that it follows the \<open>await\<close>s of the source.
\<close>

datatype uuid = Uuid "nat list"

datatype exn = Thrown

datatype event_type = CHECK_IN | CHECK_OUT

record visit_row =
  v_id :: uuid
  v_vendor_name :: string
  v_created_at :: int

record challenge_row =
  c_id :: uuid
  c_nonce :: string
  c_expires_at :: int
  c_used_at :: "int option"

record event_row =
  e_id :: uuid
  e_visit_id :: uuid
  e_event_type :: event_type
  e_vendor_name :: string
  e_latitude :: real
  e_longitude :: real
  e_accuracy_meters :: real
  e_captured_at :: string
  e_photo_url :: string
  e_photo_sha256 :: string
  e_device_public_key :: string
  e_device_signature :: string
  e_server_challenge_id :: uuid
  e_user_agent :: string
  e_ip_address :: "string option"
  e_created_at :: int

record db =
  visits :: "visit_row list"
  server_challenges :: "challenge_row list"
  visit_events :: "event_row list"

text \<open>The parsed request body (\<open>EventSchema\<close>) and the parts of the HTTP request
  that \<open>insertEvent\<close> reads.\<close>

record body =
  eventType :: event_type
  vendorName :: string
  latitude :: real
  longitude :: real
  accuracyMeters :: real
  capturedAt :: string
  photoUrl :: string
  photoSha256 :: string
  devicePublicKey :: string
  deviceSignature :: string
  challengeId :: uuid
  challengeNonce :: string

record req =
  header_user_agent :: "string option"
  header_x_forwarded_for :: "string option"
  socket_remoteAddress :: "string option"

record env =
  ACCURACY_THRESHOLD_METERS :: real
  CHALLENGE_TTL_SECONDS :: int
  String_num :: "real \<Rightarrow> string"
  trim :: "string \<Rightarrow> string"
  toLowerCase :: "string \<Rightarrow> string"
  LOWER :: "string \<Rightarrow> string"
  is_datetime :: "string \<Rightarrow> bool"
  uuid_in :: "string \<Rightarrow> uuid option"
  text_in :: "string \<Rightarrow> bool"
  timestamptz_in :: "string \<Rightarrow> bool"
  path_join_dirname :: "string \<Rightarrow> string"
  fs_existsSync :: "string \<Rightarrow> bool"
  Buffer_from_base64 :: "string \<Rightarrow> string"
  createPublicKey :: "string \<Rightarrow> exn + string"
  crypto_verify :: "string \<Rightarrow> string \<Rightarrow> string \<Rightarrow> exn + bool"

text \<open>The JSON answers: an error, the two ids of a check-in, those of a check-out
  (the visit id as the path spelled it), and a challenge.\<close>

datatype json_body =
  ErrorBody string
  | CheckInBody uuid uuid
  | CheckOutBody string uuid
  | ChallengeBody uuid string int

text \<open>\<open>NoResponse\<close>: the handler's promise is rejected and the handler sends no
  answer.\<close>

datatype response = Json nat json_body | NoResponse exn

datatype insert_result = Ok uuid | Fail nat string | Rejected exn

section \<open>String helpers\<close>

text \<open>\<open>Array.prototype.join\<close> on an array of strings.\<close>

fun join_sep :: "string \<Rightarrow> string list \<Rightarrow> string" where
  "join_sep sep [] = []"
| "join_sep sep [x] = x"
| "join_sep sep (x # y # ys) = x @ sep @ join_sep sep (y # ys)"

definition startsWith :: "string \<Rightarrow> string \<Rightarrow> bool" where
  "startsWith s p = (take (length p) s = p)"

text \<open>The number of UTF-16 code units of a string, from its UTF-8 bytes: a
  continuation byte adds nothing, the first byte of a four-byte sequence opens a
  surrogate pair, every other first byte is one unit.\<close>

definition utf16_units :: "char \<Rightarrow> nat" where
  "utf16_units c =
     (let n = (of_char c :: nat)
      in if 128 \<le> n \<and> n < 192 then 0 else if 240 \<le> n then 2 else 1)"

definition utf16_length :: "string \<Rightarrow> nat" where
  "utf16_length s = sum_list (map utf16_units s)"

definition event_type_str :: "event_type \<Rightarrow> string" where
  "event_type_str t = (case t of CHECK_IN \<Rightarrow> ''CHECK_IN'' | CHECK_OUT \<Rightarrow> ''CHECK_OUT'')"

section \<open>String on numbers\<close>

text \<open>ECMAScript's \<open>Number::toString\<close> in radix 10. For \<open>x > 0\<close> it takes the
  integers \<open>n\<close>, \<open>k\<close>, \<open>s\<close> with \<open>k \<ge> 1\<close>, \<open>10^(k-1) \<le> s < 10^k\<close> and
  \<open>s \<times> 10^(n-k) = x\<close>, \<open>k\<close> as small as possible, and prints the \<open>k\<close> digits of \<open>s\<close>:
  followed by \<open>n - k\<close> zeros when \<open>k \<le> n \<le> 21\<close>; with a point after the first \<open>n\<close>
  digits when \<open>0 < n \<le> 21\<close>; after \<open>0.\<close> and \<open>-n\<close> zeros when \<open>-6 < n \<le> 0\<close>; and in
  exponent notation otherwise. Zero prints as \<open>0\<close>, a negative number as \<open>-\<close> and
  the text of its absolute value.\<close>

definition digit_char :: "nat \<Rightarrow> char" where
  "digit_char d = ''0123456789'' ! (d mod 10)"

fun nat_digits :: "nat \<Rightarrow> string" where
  "nat_digits n =
     (if n < 10 then [digit_char n] else nat_digits (n div 10) @ [digit_char (n mod 10)])"

declare nat_digits.simps [simp del]

definition is_whole :: "real \<Rightarrow> bool" where
  "is_whole x = (of_int \<lfloor>x\<rfloor> = x)"

text \<open>The number of decimal places of \<open>x\<close>: the least \<open>f\<close> with \<open>x \<times> 10^f\<close> whole,
  searched up to a bound.\<close>

fun frac_places :: "nat \<Rightarrow> real \<Rightarrow> nat" where
  "frac_places fuel x =
     (if fuel = 0 \<or> is_whole x then 0 else Suc (frac_places (fuel - 1) (x * 10)))"

declare frac_places.simps [simp del]

fun trailing_zeros :: "nat \<Rightarrow> nat" where
  "trailing_zeros m =
     (if m = 0 \<or> m mod 10 \<noteq> 0 then 0 else Suc (trailing_zeros (m div 10)))"

declare trailing_zeros.simps [simp del]

text \<open>The digits \<open>s\<close> of a positive decimal and the exponent \<open>e\<close> with
  \<open>x = s \<times> 10^e\<close>, \<open>s\<close> not divisible by ten. A double has at most 17 significant
  digits and an exponent of at least -324, hence the bound.\<close>

definition decimal_places_bound :: nat where
  "decimal_places_bound = 400"

definition significand :: "real \<Rightarrow> nat" where
  "significand x =
     (let m = nat \<lfloor>x * 10 ^ frac_places decimal_places_bound x\<rfloor>
      in m div 10 ^ trailing_zeros m)"

definition exponent10 :: "real \<Rightarrow> int" where
  "exponent10 x =
     (let f = frac_places decimal_places_bound x;
          m = nat \<lfloor>x * 10 ^ f\<rfloor>
      in int (trailing_zeros m) - int f)"

text \<open>Steps 6 to 10 of \<open>Number::toString\<close>, on the digits of \<open>s\<close> and on \<open>n\<close>.\<close>

definition place_point :: "string \<Rightarrow> int \<Rightarrow> string" where
  "place_point ds n =
     (let k = int (length ds)
      in if k \<le> n \<and> n \<le> 21 then ds @ replicate (nat (n - k)) (CHR ''0'')
         else if 0 < n \<and> n \<le> 21 then take (nat n) ds @ ''.'' @ drop (nat n) ds
         else if - 6 < n \<and> n \<le> 0 then ''0.'' @ replicate (nat (- n)) (CHR ''0'') @ ds
         else (if k = 1 then ds else take 1 ds @ ''.'' @ drop 1 ds)
                @ ''e'' @ (if n - 1 < 0 then ''-'' else ''+'') @ nat_digits (nat \<bar>n - 1\<bar>))"

definition positive_toString :: "real \<Rightarrow> string" where
  "positive_toString x =
     (let ds = nat_digits (significand x)
      in place_point ds (int (length ds) + exponent10 x))"

definition Number_toString :: "real \<Rightarrow> string" where
  "Number_toString x =
     (if x = 0 then ''0''
      else if x < 0 then ''-'' @ positive_toString (- x)
      else positive_toString x)"

text \<open>The decimal numbers that stand for doubles: those with at most
  \<open>decimal_places_bound\<close> places.\<close>

definition is_decimal :: "real \<Rightarrow> bool" where
  "is_decimal x = is_whole (\<bar>x\<bar> * 10 ^ frac_places decimal_places_bound \<bar>x\<bar>)"

text \<open>The number that a decimal text denotes: an optional minus sign, digits with
  an optional point, and an optional exponent part after \<open>e\<close>.\<close>

definition digits_value :: "string \<Rightarrow> nat" where
  "digits_value ds = foldl (\<lambda>a c. 10 * a + (of_char c - 48)) 0 ds"

definition unsigned_value :: "string \<Rightarrow> real" where
  "unsigned_value s =
     (let mant = takeWhile (\<lambda>c. c \<noteq> CHR ''e'') s;
          ex = drop 1 (dropWhile (\<lambda>c. c \<noteq> CHR ''e'') s);
          whole = takeWhile (\<lambda>c. c \<noteq> CHR ''.'') mant;
          frac = drop 1 (dropWhile (\<lambda>c. c \<noteq> CHR ''.'') mant);
          e = (case ex of
                 [] \<Rightarrow> 0
               | sg # ds \<Rightarrow>
                   if sg = CHR ''-'' then - int (digits_value ds)
                   else if sg = CHR ''+'' then int (digits_value ds)
                   else int (digits_value (sg # ds)))
      in real (digits_value (whole @ frac)) * 10 powi (e - int (length frac)))"

definition decimal_value :: "string \<Rightarrow> real" where
  "decimal_value s =
     (case s of
        [] \<Rightarrow> 0
      | c # rest \<Rightarrow> if c = CHR ''-'' then - unsigned_value rest else unsigned_value s)"

section \<open>Payload canonicalizer\<close>

text \<open>\<open>buildSigningPayload(p)\<close>: the array literal, then \<open>.join("|")\<close>. The
  first argument is JavaScript's \<open>String\<close> on numbers.\<close>

definition signing_fields :: "(real \<Rightarrow> string) \<Rightarrow> body \<Rightarrow> string list" where
  "signing_fields String p =
     [challengeNonce p,
      event_type_str (eventType p),
      vendorName p,
      String (latitude p),
      String (longitude p),
      String (accuracyMeters p),
      capturedAt p,
      photoSha256 p]"

definition buildSigningPayload :: "(real \<Rightarrow> string) \<Rightarrow> body \<Rightarrow> string" where
  "buildSigningPayload String p = join_sep ''|'' (signing_fields String p)"

section \<open>Challenge consumption\<close>

text \<open>The two statements of \<open>verifyChallenge\<close>: the SELECT by id and the UPDATE
  \<open>SET used_at = NOW() WHERE id = $1\<close> (no other condition). The id is compared as a
  \<open>uuid\<close> value.\<close>

definition SELECT_challenge :: "uuid \<Rightarrow> db \<Rightarrow> challenge_row option" where
  "SELECT_challenge cid d = find (\<lambda>r. c_id r = cid) (server_challenges d)"

definition UPDATE_challenge_used :: "int \<Rightarrow> uuid \<Rightarrow> db \<Rightarrow> db" where
  "UPDATE_challenge_used now cid d =
     d\<lparr>server_challenges :=
         map (\<lambda>r. if c_id r = cid then r\<lparr>c_used_at := Some now\<rparr> else r) (server_challenges d)\<rparr>"

text \<open>The checks between the two statements, on the row the SELECT returned.\<close>

definition challenge_checks :: "int \<Rightarrow> string \<Rightarrow> challenge_row option \<Rightarrow> string + unit" where
  "challenge_checks now nonce r =
     (case r of
        None \<Rightarrow> Inl ''Challenge not found''
      | Some row \<Rightarrow>
          if c_used_at row \<noteq> None then Inl ''Challenge already used''
          else if now > c_expires_at row then Inl ''Challenge expired''
          else if c_nonce row \<noteq> nonce then Inl ''Challenge nonce mismatch''
          else Inr ())"

text \<open>\<open>verifyChallenge\<close> run without interruption: the result and the database
  after it.\<close>

definition verifyChallenge :: "int \<Rightarrow> uuid \<Rightarrow> string \<Rightarrow> db \<Rightarrow> (string + unit) \<times> db" where
  "verifyChallenge now cid nonce d =
     (case challenge_checks now nonce (SELECT_challenge cid d) of
        Inl reason \<Rightarrow> (Inl reason, d)
      | Inr u \<Rightarrow> (Inr (), UPDATE_challenge_used now cid d))"

section \<open>Signature verifier\<close>

text \<open>\<open>try { ... } catch { return false; }\<close>: a computation that may throw is a
  value of \<open>exn + 'a\<close>, and \<open>try_catch\<close> runs the handler on \<open>Inl\<close>.\<close>

definition try_catch :: "exn + 'a \<Rightarrow> (exn \<Rightarrow> exn + 'a) \<Rightarrow> exn + 'a" where
  "try_catch m h = (case m of Inl e \<Rightarrow> h e | Inr v \<Rightarrow> Inr v)"

text \<open>The body of the \<open>try\<close> block of \<open>verifySignature\<close>.\<close>

definition verifySignature_try :: "env \<Rightarrow> string \<Rightarrow> string \<Rightarrow> string \<Rightarrow> exn + bool" where
  "verifySignature_try en devicePublicKeyBase64 signatureBase64 payloadString =
     (let publicKeyDer = Buffer_from_base64 en devicePublicKeyBase64;
          signature = Buffer_from_base64 en signatureBase64
      in case createPublicKey en publicKeyDer of
           Inl e \<Rightarrow> Inl e
         | Inr publicKey \<Rightarrow> crypto_verify en payloadString publicKey signature)"

definition verifySignature :: "env \<Rightarrow> string \<Rightarrow> string \<Rightarrow> string \<Rightarrow> exn + bool" where
  "verifySignature en devicePublicKeyBase64 signatureBase64 payloadString =
     try_catch (verifySignature_try en devicePublicKeyBase64 signatureBase64 payloadString)
       (\<lambda>e. Inr False)"

section \<open>Precondition gate and event insertion\<close>

definition getClientIp :: "env \<Rightarrow> req \<Rightarrow> string option" where
  "getClientIp en r =
     (let remote = (case socket_remoteAddress r of
                      None \<Rightarrow> None
                    | Some a \<Rightarrow> if a = [] then None else Some a)
      in case header_x_forwarded_for r of
           None \<Rightarrow> remote
         | Some xf \<Rightarrow>
             if length xf > 0 then Some (trim en (takeWhile (\<lambda>c. c \<noteq> CHR '','') xf))
             else remote)"

definition photoExists :: "env \<Rightarrow> string \<Rightarrow> bool" where
  "photoExists en url =
     (if \<not> startsWith url ''/uploads/'' then False
      else fs_existsSync en (path_join_dirname en url))"

text \<open>INSERT into \<open>visit_events\<close>. PostgreSQL must read every parameter (the text
  columns and the timestamp), and the row must respect the primary key, the two foreign
  keys and the partial unique indexes \<open>uniq_one_checkin_per_visit\<close> and
  \<open>uniq_one_checkout_per_visit\<close> (one row per visit id and event type).\<close>

definition event_params_in :: "env \<Rightarrow> event_row \<Rightarrow> bool" where
  "event_params_in en row =
     (text_in en (e_vendor_name row)
      \<and> timestamptz_in en (e_captured_at row)
      \<and> text_in en (e_photo_url row)
      \<and> text_in en (e_photo_sha256 row)
      \<and> text_in en (e_device_public_key row)
      \<and> text_in en (e_device_signature row)
      \<and> text_in en (e_user_agent row)
      \<and> (case e_ip_address row of None \<Rightarrow> True | Some ip \<Rightarrow> text_in en ip))"

definition INSERT_visit_events :: "env \<Rightarrow> event_row \<Rightarrow> db \<Rightarrow> exn + db" where
  "INSERT_visit_events en row d =
     (if \<not> event_params_in en row
         \<or> e_id row \<in> set (map e_id (visit_events d))
         \<or> e_visit_id row \<notin> set (map v_id (visits d))
         \<or> e_server_challenge_id row \<notin> set (map c_id (server_challenges d))
         \<or> (e_visit_id row, e_event_type row)
              \<in> set (map (\<lambda>r. (e_visit_id r, e_event_type r)) (visit_events d))
      then Inl Thrown
      else Inr (d\<lparr>visit_events := visit_events d @ [row]\<rparr>))"

definition make_event_row :: "env \<Rightarrow> int \<Rightarrow> uuid \<Rightarrow> uuid \<Rightarrow> body \<Rightarrow> req \<Rightarrow> event_row" where
  "make_event_row en now newId visitId b r =
     \<lparr>e_id = newId,
      e_visit_id = visitId,
      e_event_type = eventType b,
      e_vendor_name = vendorName b,
      e_latitude = latitude b,
      e_longitude = longitude b,
      e_accuracy_meters = accuracyMeters b,
      e_captured_at = capturedAt b,
      e_photo_url = photoUrl b,
      e_photo_sha256 = photoSha256 b,
      e_device_public_key = devicePublicKey b,
      e_device_signature = deviceSignature b,
      e_server_challenge_id = challengeId b,
      e_user_agent = (case header_user_agent r of None \<Rightarrow> [] | Some u \<Rightarrow> u),
      e_ip_address = getClientIp en r,
      e_created_at = now\<rparr>"

text \<open>\<open>insertEvent({ visitId, body, req })\<close>; \<open>newId\<close> is the value of
  \<open>crypto.randomUUID()\<close>.\<close>

definition insertEvent ::
  "env \<Rightarrow> int \<Rightarrow> uuid \<Rightarrow> uuid \<Rightarrow> body \<Rightarrow> req \<Rightarrow> db \<Rightarrow> insert_result \<times> db" where
  "insertEvent en now newId visitId b r d =
     (if accuracyMeters b > ACCURACY_THRESHOLD_METERS en then
        (Fail 400 (''Accuracy must be <= '' @ String_num en (ACCURACY_THRESHOLD_METERS en)
                     @ '' meters''), d)
      else if \<not> photoExists en (photoUrl b) then
        (Fail 400 ''Photo not found. Upload photo first.'', d)
      else
        (case verifyChallenge now (challengeId b) (challengeNonce b) d of
           (Inl reason, d1) \<Rightarrow> (Fail 400 reason, d1)
         | (Inr u, d1) \<Rightarrow>
             (case verifySignature en (devicePublicKey b) (deviceSignature b)
                     (buildSigningPayload (String_num en) b) of
                Inl e \<Rightarrow> (Rejected e, d1)
              | Inr sigOk \<Rightarrow>
                  if \<not> sigOk then (Fail 400 ''Invalid device signature'', d1)
                  else
                    (case INSERT_visit_events en (make_event_row en now newId visitId b r) d1 of
                       Inl e \<Rightarrow> (Fail 500 ''Failed to save event'', d1)
                     | Inr d2 \<Rightarrow> (Ok newId, d2)))))"

section \<open>Visit lifecycle\<close>

text \<open>\<open>z.string().datetime()\<close>: every release of the library admits only texts
  made of the characters below (digits, the separators of an ISO-8601 instant, an
  offset sign); what else a release checks is the parameter \<open>is_datetime\<close>.\<close>

definition datetime_chars :: "string \<Rightarrow> bool" where
  "datetime_chars s = (set s \<subseteq> set ''0123456789-:.TZtz+'')"

definition EventSchema_safeParse :: "env \<Rightarrow> body \<Rightarrow> bool" where
  "EventSchema_safeParse en b =
     (1 \<le> utf16_length (vendorName b) \<and> utf16_length (vendorName b) \<le> 255
      \<and> - 90 \<le> latitude b \<and> latitude b \<le> 90
      \<and> - 180 \<le> longitude b \<and> longitude b \<le> 180
      \<and> 0 \<le> accuracyMeters b \<and> accuracyMeters b \<le> 100000
      \<and> datetime_chars (capturedAt b) \<and> is_datetime en (capturedAt b)
      \<and> 1 \<le> utf16_length (photoUrl b)
      \<and> utf16_length (photoSha256 b) = 64
      \<and> 1 \<le> utf16_length (devicePublicKey b)
      \<and> 1 \<le> utf16_length (deviceSignature b)
      \<and> 1 \<le> utf16_length (challengeNonce b))"

text \<open>The pre-check of the check-in handler:
  \<open>SELECT id FROM visits WHERE LOWER(vendor_name) = LOWER($1) LIMIT 1\<close>.\<close>

definition SELECT_visit_by_vendor :: "env \<Rightarrow> string \<Rightarrow> db \<Rightarrow> exn + visit_row option" where
  "SELECT_visit_by_vendor en name d =
     (if \<not> text_in en name then Inl Thrown
      else Inr (find (\<lambda>v. LOWER en (v_vendor_name v) = LOWER en name) (visits d)))"

text \<open>INSERT into \<open>visits\<close>: the primary key and the unique index
  \<open>uniq_vendor_name\<close> on \<open>LOWER(vendor_name)\<close>.\<close>

definition INSERT_visits :: "env \<Rightarrow> visit_row \<Rightarrow> db \<Rightarrow> exn + db" where
  "INSERT_visits en row d =
     (if \<not> text_in en (v_vendor_name row)
         \<or> v_id row \<in> set (map v_id (visits d))
         \<or> LOWER en (v_vendor_name row)
              \<in> set (map (\<lambda>r. LOWER en (v_vendor_name r)) (visits d))
      then Inl Thrown
      else Inr (d\<lparr>visits := visits d @ [row]\<rparr>))"

definition insert_response :: "(uuid \<Rightarrow> json_body) \<Rightarrow> insert_result \<Rightarrow> response" where
  "insert_response ids r =
     (case r of
        Fail st err \<Rightarrow> Json st (ErrorBody err)
      | Ok newId \<Rightarrow> Json 201 (ids newId)
      | Rejected e \<Rightarrow> NoResponse e)"

text \<open>\<open>POST /api/visits/check-in\<close>; \<open>visitId\<close> and \<open>eventId\<close> are the two values
  of \<open>crypto.randomUUID()\<close>. The pre-check and the INSERT into \<open>visits\<close> each stand in
  a \<open>try\<close> of their own; \<open>insertEvent\<close> is awaited outside any \<open>try\<close>.\<close>

definition checkIn ::
  "env \<Rightarrow> int \<Rightarrow> uuid \<Rightarrow> uuid \<Rightarrow> req \<Rightarrow> body \<Rightarrow> db \<Rightarrow> response \<times> db" where
  "checkIn en now visitId eventId r b d =
     (if \<not> EventSchema_safeParse en b then (Json 400 (ErrorBody ''Invalid payload''), d)
      else if eventType b \<noteq> CHECK_IN then
        (Json 400 (ErrorBody ''eventType must be CHECK_IN''), d)
      else
        (case SELECT_visit_by_vendor en (vendorName b) d of
           Inl e \<Rightarrow> (Json 500 (ErrorBody ''Failed to validate vendor name''), d)
         | Inr (Some existing) \<Rightarrow> (Json 409 (ErrorBody ''Vendor name already exists''), d)
         | Inr None \<Rightarrow>
             (case INSERT_visits en
                     \<lparr>v_id = visitId, v_vendor_name = trim en (vendorName b),
                        v_created_at = now\<rparr> d of
                Inl e \<Rightarrow> (Json 500 (ErrorBody ''Failed to create visit''), d)
              | Inr d1 \<Rightarrow>
                  (case insertEvent en now eventId visitId b r d1 of
                     (res, d2) \<Rightarrow> (insert_response (CheckInBody visitId) res, d2)))))"

text \<open>The lookup of the check-out handler, \<open>SELECT vendor_name FROM visits WHERE
  id = $1\<close>, with the path parameter as it came: PostgreSQL throws when it is no
  UUID.\<close>

definition SELECT_visit_by_id :: "env \<Rightarrow> string \<Rightarrow> db \<Rightarrow> exn + visit_row option" where
  "SELECT_visit_by_id en visitId d =
     (case uuid_in en visitId of
        None \<Rightarrow> Inl Thrown
      | Some vid \<Rightarrow> Inr (find (\<lambda>v. v_id v = vid) (visits d)))"

text \<open>\<open>POST /api/visits/:visitId/check-out\<close>. The path parameter is not validated
  and no \<open>try\<close> encloses the lookup: when it throws, the handler sends no answer.\<close>

definition checkOut ::
  "env \<Rightarrow> int \<Rightarrow> string \<Rightarrow> uuid \<Rightarrow> req \<Rightarrow> body \<Rightarrow> db \<Rightarrow> response \<times> db" where
  "checkOut en now visitId eventId r b d =
     (if \<not> EventSchema_safeParse en b then (Json 400 (ErrorBody ''Invalid payload''), d)
      else if eventType b \<noteq> CHECK_OUT then
        (Json 400 (ErrorBody ''eventType must be CHECK_OUT''), d)
      else
        (case SELECT_visit_by_id en visitId d of
           Inl e \<Rightarrow> (NoResponse e, d)
         | Inr None \<Rightarrow> (Json 404 (ErrorBody ''Visit not found''), d)
         | Inr (Some visit) \<Rightarrow>
             (let checkInVendor = v_vendor_name visit;
                  normalizedCheckIn = toLowerCase en (trim en checkInVendor);
                  normalizedCheckOut = toLowerCase en (trim en (vendorName b))
              in if normalizedCheckOut \<noteq> normalizedCheckIn then
                   (Json 400 (ErrorBody (''Vendor mismatch: check-in was '' @ [CHR 0x22]
                       @ checkInVendor @ [CHR 0x22] @ '' but check-out is '' @ [CHR 0x22]
                       @ vendorName b @ [CHR 0x22])), d)
                 else
                   (case insertEvent en now eventId (v_id visit) b r d of
                      (res, d2) \<Rightarrow> (insert_response (CheckOutBody visitId) res, d2)))))"

section \<open>Challenge issuer\<close>

text \<open>\<open>Buffer.toString("base64url")\<close>: three bytes give four characters of the
  URL-safe alphabet, and nothing pads a shorter last group.\<close>

definition b64 :: "nat \<Rightarrow> char" where
  "b64 n = ''ABCDEFGHIJKLMNOPQRSTUVWXYZabcdefghijklmnopqrstuvwxyz0123456789-_'' ! (n mod 64)"

fun base64url :: "nat list \<Rightarrow> string" where
  "base64url [] = []"
| "base64url [a] = [b64 (a div 4), b64 ((a mod 4) * 16)]"
| "base64url [a, b] =
     [b64 (a div 4), b64 ((a mod 4) * 16 + b div 16), b64 ((b mod 16) * 4)]"
| "base64url (a # b # c # rest) =
     [b64 (a div 4), b64 ((a mod 4) * 16 + b div 16), b64 ((b mod 16) * 4 + c div 64),
      b64 (c mod 64)] @ base64url rest"

definition INSERT_server_challenges :: "challenge_row \<Rightarrow> db \<Rightarrow> exn + db" where
  "INSERT_server_challenges row d =
     (if c_id row \<in> set (map c_id (server_challenges d)) then Inl Thrown
      else Inr (d\<lparr>server_challenges := server_challenges d @ [row]\<rparr>))"

text \<open>\<open>createChallenge\<close>; \<open>newId\<close> is the value of \<open>crypto.randomUUID()\<close> and
  \<open>bytes\<close> that of \<open>crypto.randomBytes(24)\<close>, each byte below 256.\<close>

definition createChallenge ::
  "env \<Rightarrow> int \<Rightarrow> uuid \<Rightarrow> nat list \<Rightarrow> db \<Rightarrow> exn + (challenge_row \<times> db)" where
  "createChallenge en now newId bytes d =
     (let row = \<lparr>c_id = newId, c_nonce = base64url bytes,
                 c_expires_at = now + CHALLENGE_TTL_SECONDS en * 1000, c_used_at = None\<rparr>
      in case INSERT_server_challenges row d of
           Inl e \<Rightarrow> Inl e
         | Inr d1 \<Rightarrow> Inr (row, d1))"

text \<open>\<open>GET /api/challenge\<close>.\<close>

definition getChallenge :: "env \<Rightarrow> int \<Rightarrow> uuid \<Rightarrow> nat list \<Rightarrow> db \<Rightarrow> response \<times> db" where
  "getChallenge en now newId bytes d =
     (case createChallenge en now newId bytes d of
        Inl e \<Rightarrow> (Json 500 (ErrorBody ''Failed to create challenge''), d)
      | Inr (c, d1) \<Rightarrow> (Json 200 (ChallengeBody (c_id c) (c_nonce c) (c_expires_at c)), d1))"

section \<open>The server as a sequence of requests\<close>

text \<open>The three routes that write to the database, each request carrying its clock
  reading and its random values. \<open>serve\<close> handles the requests one after another.\<close>

datatype request =
  GET_challenge int uuid "nat list"
  | POST_check_in int uuid uuid req body
  | POST_check_out int string uuid req body

fun handle :: "env \<Rightarrow> request \<Rightarrow> db \<Rightarrow> response \<times> db" where
  "handle en (GET_challenge now newId bytes) d = getChallenge en now newId bytes d"
| "handle en (POST_check_in now visitId eventId r b) d = checkIn en now visitId eventId r b d"
| "handle en (POST_check_out now visitId eventId r b) d = checkOut en now visitId eventId r b d"

fun serve :: "env \<Rightarrow> request list \<Rightarrow> db \<Rightarrow> db" where
  "serve en [] d = d"
| "serve en (q # qs) d = serve en qs (snd (handle en q d))"

definition empty_db :: db where
  "empty_db = \<lparr>visits = [], server_challenges = [], visit_events = []\<rparr>"

section \<open>Overlapping calls of verifyChallenge\<close>

text \<open>\<open>verifyChallenge\<close> awaits twice: the SELECT, then the UPDATE. A call is
  suspended at one of these two statements or has returned. Resuming a call runs it up
  to its next \<open>await\<close>: the statement executes on the database as it is then, and the
  JavaScript after it runs to the next statement.\<close>

datatype vc_pc = AwaitSelect | AwaitUpdate | Returned "string + unit"

definition vc_step :: "int \<Rightarrow> uuid \<Rightarrow> string \<Rightarrow> vc_pc \<Rightarrow> db \<Rightarrow> vc_pc \<times> db" where
  "vc_step now cid nonce pc d =
     (case pc of
        AwaitSelect \<Rightarrow>
          (case challenge_checks now nonce (SELECT_challenge cid d) of
             Inl reason \<Rightarrow> (Returned (Inl reason), d)
           | Inr u \<Rightarrow> (AwaitUpdate, d))
      | AwaitUpdate \<Rightarrow> (Returned (Inr ()), UPDATE_challenge_used now cid d)
      | Returned res \<Rightarrow> (Returned res, d))"

text \<open>Callers of \<open>verifyChallenge\<close> for one challenge id, each with the nonce it
  presents and its position; a schedule names the caller resumed next and the clock at
  that moment. An index that names no caller is skipped.\<close>

fun run_schedule ::
  "uuid \<Rightarrow> (nat \<times> int) list \<Rightarrow> (string \<times> vc_pc) list \<Rightarrow> db \<Rightarrow> (string \<times> vc_pc) list \<times> db" where
  "run_schedule cid [] cs d = (cs, d)"
| "run_schedule cid ((i, now) # rest) cs d =
     (if i < length cs then
        (case vc_step now cid (fst (cs ! i)) (snd (cs ! i)) d of
           (pc', d') \<Rightarrow> run_schedule cid rest (cs[i := (fst (cs ! i), pc')]) d')
      else run_schedule cid rest cs d)"

text \<open>Calls that do not overlap: each \<open>verifyChallenge\<close> returns before the next
  starts. A call is the clock reading and the nonce presented.\<close>

fun consume_all :: "uuid \<Rightarrow> (int \<times> string) list \<Rightarrow> db \<Rightarrow> (string + unit) list \<times> db" where
  "consume_all cid [] d = ([], d)"
| "consume_all cid ((now, nonce) # cs) d =
     (case verifyChallenge now cid nonce d of
        (res, d1) \<Rightarrow> (case consume_all cid cs d1 of (rs, d2) \<Rightarrow> (res # rs, d2)))"

section \<open>Overlapping check-ins\<close>

text \<open>The check-in handler at the grain of its \<open>await\<close>s: the pre-check SELECT,
  the INSERT into \<open>visits\<close>, and \<open>insertEvent\<close> (taken as one step). \<open>checkIn_begin\<close>
  is the synchronous start of the handler, up to its first \<open>await\<close>.\<close>

datatype ci_pc = AwaitPrecheck | AwaitInsertVisit | AwaitInsertEvent | Answered response

definition checkIn_begin :: "env \<Rightarrow> body \<Rightarrow> ci_pc" where
  "checkIn_begin en b =
     (if \<not> EventSchema_safeParse en b then Answered (Json 400 (ErrorBody ''Invalid payload''))
      else if eventType b \<noteq> CHECK_IN then
        Answered (Json 400 (ErrorBody ''eventType must be CHECK_IN''))
      else AwaitPrecheck)"

definition checkIn_step ::
  "env \<Rightarrow> int \<Rightarrow> uuid \<Rightarrow> uuid \<Rightarrow> req \<Rightarrow> body \<Rightarrow> ci_pc \<Rightarrow> db \<Rightarrow> ci_pc \<times> db" where
  "checkIn_step en now visitId eventId r b pc d =
     (case pc of
        AwaitPrecheck \<Rightarrow>
          (case SELECT_visit_by_vendor en (vendorName b) d of
             Inl e \<Rightarrow> (Answered (Json 500 (ErrorBody ''Failed to validate vendor name'')), d)
           | Inr (Some existing) \<Rightarrow>
               (Answered (Json 409 (ErrorBody ''Vendor name already exists'')), d)
           | Inr None \<Rightarrow> (AwaitInsertVisit, d))
      | AwaitInsertVisit \<Rightarrow>
          (case INSERT_visits en
                  \<lparr>v_id = visitId, v_vendor_name = trim en (vendorName b),
                     v_created_at = now\<rparr> d of
             Inl e \<Rightarrow> (Answered (Json 500 (ErrorBody ''Failed to create visit'')), d)
           | Inr d1 \<Rightarrow> (AwaitInsertEvent, d1))
      | AwaitInsertEvent \<Rightarrow>
          (case insertEvent en now eventId visitId b r d of
             (res, d2) \<Rightarrow> (Answered (insert_response (CheckInBody visitId) res), d2))
      | Answered res \<Rightarrow> (Answered res, d))"

text \<open>Two check-ins in flight, each with its clock, its random ids, its request and
  its position; a schedule names the one resumed next (\<open>False\<close> the first, \<open>True\<close> the
  second).\<close>

record checkin_call =
  ci_now :: int
  ci_visitId :: uuid
  ci_eventId :: uuid
  ci_req :: req
  ci_body :: body
  ci_at :: ci_pc

definition resume :: "env \<Rightarrow> checkin_call \<Rightarrow> db \<Rightarrow> checkin_call \<times> db" where
  "resume en c d =
     (case checkIn_step en (ci_now c) (ci_visitId c) (ci_eventId c) (ci_req c) (ci_body c)
             (ci_at c) d of
        (pc, d') \<Rightarrow> (c\<lparr>ci_at := pc\<rparr>, d'))"

fun run_checkins ::
  "env \<Rightarrow> bool list \<Rightarrow> checkin_call \<Rightarrow> checkin_call \<Rightarrow> db \<Rightarrow> checkin_call \<times> checkin_call \<times> db"
  where
  "run_checkins en [] c1 c2 d = (c1, c2, d)"
| "run_checkins en (second # rest) c1 c2 d =
     (if second then (case resume en c2 d of (c2', d') \<Rightarrow> run_checkins en rest c1 c2' d')
      else (case resume en c1 d of (c1', d') \<Rightarrow> run_checkins en rest c1' c2 d'))"

section \<open>Predicates on the stored state\<close>

text \<open>A challenge is spent when its row has \<open>used_at\<close> set.\<close>

definition challenge_used :: "uuid \<Rightarrow> db \<Rightarrow> bool" where
  "challenge_used cid d =
     (case SELECT_challenge cid d of None \<Rightarrow> False | Some row \<Rightarrow> c_used_at row \<noteq> None)"

text \<open>The two storage invariants of the visit lifecycle: the unique index on
  \<open>LOWER(vendor_name)\<close>, and the unique indexes that allow one CHECK_IN and one
  CHECK_OUT row per visit.\<close>

definition vendor_unique :: "env \<Rightarrow> db \<Rightarrow> bool" where
  "vendor_unique en d = distinct (map (\<lambda>v. LOWER en (v_vendor_name v)) (visits d))"

definition events_unique :: "db \<Rightarrow> bool" where
  "events_unique d = distinct (map (\<lambda>e. (e_visit_id e, e_event_type e)) (visit_events d))"

text \<open>A visit is closed when a CHECK_OUT row is stored for it.\<close>

definition visit_closed :: "uuid \<Rightarrow> db \<Rightarrow> bool" where
  "visit_closed visitId d =
     ((visitId, CHECK_OUT) \<in> set (map (\<lambda>e. (e_visit_id e, e_event_type e)) (visit_events d)))"

text \<open>A string without the delimiter, and a database whose nonces are all without
  it.\<close>

definition bar_free :: "string \<Rightarrow> bool" where
  "bar_free s = (CHR ''|'' \<notin> set s)"

definition nonces_bar_free :: "db \<Rightarrow> bool" where
  "nonces_bar_free d = list_all (\<lambda>row. bar_free (c_nonce row)) (server_challenges d)"

section \<open>A concrete deployment for the scenarios\<close>

text \<open>The values below instantiate the parameters for the concrete scenarios that
  accompany the theorems. The vendor names of the scenarios are ASCII, so the
  deployment trims ASCII white space and lower-cases ASCII letters; PostgreSQL's reader
  of UUIDs accepts upper-case digits, braces around the text and a hyphen after any
  group of four digits; a text parameter must hold no NUL; the photo store holds one
  file; and in the toy signature scheme the only well-formed key is \<open>KEY\<close> and a
  signature is valid when it is the key followed by the payload.\<close>

definition ascii_lower_char :: "char \<Rightarrow> char" where
  "ascii_lower_char c =
     (let n = (of_char c :: nat) in if 65 \<le> n \<and> n \<le> 90 then char_of (n + 32) else c)"

definition ascii_lower :: "string \<Rightarrow> string" where
  "ascii_lower s = map ascii_lower_char s"

definition ascii_space :: "char \<Rightarrow> bool" where
  "ascii_space c = (let n = (of_char c :: nat) in n = 32 \<or> (9 \<le> n \<and> n \<le> 13))"

definition ascii_trim :: "string \<Rightarrow> string" where
  "ascii_trim s = rev (dropWhile ascii_space (rev (dropWhile ascii_space s)))"

definition hex_val :: "char \<Rightarrow> nat option" where
  "hex_val c =
     (let n = (of_char c :: nat)
      in if 48 \<le> n \<and> n \<le> 57 then Some (n - 48)
         else if 97 \<le> n \<and> n \<le> 102 then Some (n - 87)
         else if 65 \<le> n \<and> n \<le> 70 then Some (n - 55)
         else None)"

text \<open>Reads the bytes that are left (\<open>todo\<close> of sixteen), two hexadecimal digits
  each, and skips a hyphen after an even number of bytes unless it was the last.\<close>

fun read_uuid_bytes :: "nat \<Rightarrow> string \<Rightarrow> (nat list \<times> string) option" where
  "read_uuid_bytes todo s =
     (if todo = 0 then Some ([], s)
      else
        (case s of
           h # l # rest \<Rightarrow>
             (case (hex_val h, hex_val l) of
                (Some a, Some b) \<Rightarrow>
                  (let rest' = (case rest of
                                  c # after \<Rightarrow>
                                    if c = CHR ''-'' \<and> todo mod 2 = 1 \<and> 1 < todo then after
                                    else rest
                                | [] \<Rightarrow> rest)
                   in case read_uuid_bytes (todo - 1) rest' of
                        Some (bs, s') \<Rightarrow> Some ((16 * a + b) # bs, s')
                      | None \<Rightarrow> None)
              | _ \<Rightarrow> None)
         | _ \<Rightarrow> None))"

declare read_uuid_bytes.simps [simp del]

definition pg_uuid_in :: "string \<Rightarrow> uuid option" where
  "pg_uuid_in s =
     (let braces = (case s of c # rest \<Rightarrow> c = CHR ''{'' | [] \<Rightarrow> False);
          src = (if braces then tl s else s)
      in case read_uuid_bytes 16 src of
           None \<Rightarrow> None
         | Some (bs, rest) \<Rightarrow>
             if rest = (if braces then ''}'' else []) then Some (Uuid bs) else None)"

definition demo_env :: env where
  "demo_env =
     \<lparr>ACCURACY_THRESHOLD_METERS = 5,
      CHALLENGE_TTL_SECONDS = 120,
      String_num = Number_toString,
      trim = ascii_trim,
      toLowerCase = ascii_lower,
      LOWER = ascii_lower,
      is_datetime = (\<lambda>s. length s = 20),
      uuid_in = pg_uuid_in,
      text_in = (\<lambda>s. CHR 0x00 \<notin> set s),
      timestamptz_in = (\<lambda>s. True),
      path_join_dirname = (\<lambda>p. ''/srv/api'' @ p),
      fs_existsSync = (\<lambda>p. p = ''/srv/api/uploads/Riverside-Market.jpg''),
      Buffer_from_base64 = (\<lambda>s. s),
      createPublicKey = (\<lambda>der. if der = ''KEY'' then Inr der else Inl Thrown),
      crypto_verify = (\<lambda>payload key sig. Inr (sig = key @ payload))\<rparr>"

text \<open>Ids: the value whose last byte is \<open>n\<close> and whose first byte tells challenges
  (\<open>0xc0\<close>), visits (\<open>0xa0\<close>) and events (\<open>0xe0\<close>) apart.\<close>

definition demo_uuid :: "nat \<Rightarrow> nat \<Rightarrow> uuid" where
  "demo_uuid kind n = Uuid [kind, 0, 0, 0, 0, 0, 64, 0, 128, 0, 0, 0, 0, 0, 0, n]"

definition demo_cid :: uuid where
  "demo_cid = demo_uuid 192 1"

definition demo_cid2 :: uuid where
  "demo_cid2 = demo_uuid 192 2"

definition demo_cid3 :: uuid where
  "demo_cid3 = demo_uuid 192 3"

definition demo_vid :: uuid where
  "demo_vid = demo_uuid 160 1"

definition demo_vid2 :: uuid where
  "demo_vid2 = demo_uuid 160 2"

definition demo_eid :: uuid where
  "demo_eid = demo_uuid 224 1"

definition demo_eid2 :: uuid where
  "demo_eid2 = demo_uuid 224 2"

definition demo_eid3 :: uuid where
  "demo_eid3 = demo_uuid 224 3"

text \<open>Spellings of the two visit ids, and a text that is no UUID.\<close>

definition demo_vid_text :: string where
  "demo_vid_text = ''a0000000-0000-4000-8000-000000000001''"

definition demo_vid_upper :: string where
  "demo_vid_upper = ''A0000000-0000-4000-8000-000000000001''"

definition demo_vid2_text :: string where
  "demo_vid2_text = ''a0000000-0000-4000-8000-000000000002''"

definition not_a_uuid :: string where
  "not_a_uuid = ''visit-1''"

definition demo_challenge :: challenge_row where
  "demo_challenge =
     \<lparr>c_id = demo_cid, c_nonce = ''abc123'', c_expires_at = 120000, c_used_at = None\<rparr>"

definition demo_challenge2 :: challenge_row where
  "demo_challenge2 =
     \<lparr>c_id = demo_cid2, c_nonce = ''def456'', c_expires_at = 120000, c_used_at = None\<rparr>"

definition demo_challenge3 :: challenge_row where
  "demo_challenge3 =
     \<lparr>c_id = demo_cid3, c_nonce = ''ghi789'', c_expires_at = 120000, c_used_at = None\<rparr>"

definition demo_db :: db where
  "demo_db =
     \<lparr>visits = [],
      server_challenges = [demo_challenge, demo_challenge2, demo_challenge3],
      visit_events = []\<rparr>"

definition demo_req :: req where
  "demo_req = \<lparr>header_user_agent = Some ''demo'', header_x_forwarded_for = None,
                socket_remoteAddress = Some ''127.0.0.1''\<rparr>"

definition unsigned_body :: body where
  "unsigned_body =
     \<lparr>eventType = CHECK_IN,
      vendorName = ''Riverside Market'',
      latitude = 37,
      longitude = - 122,
      accuracyMeters = 4,
      capturedAt = ''2024-01-01T00:00:00Z'',
      photoUrl = ''/uploads/Riverside-Market.jpg'',
      photoSha256 = replicate 64 (CHR ''a''),
      devicePublicKey = ''KEY'',
      deviceSignature = ''?'',
      challengeId = demo_cid,
      challengeNonce = ''abc123''\<rparr>"

text \<open>A body signed with the toy scheme.\<close>

definition sign :: "body \<Rightarrow> body" where
  "sign b = b\<lparr>deviceSignature := ''KEY'' @ buildSigningPayload Number_toString b\<rparr>"

definition demo_body :: body where
  "demo_body = sign unsigned_body"

definition demo_out_body :: body where
  "demo_out_body =
     sign (unsigned_body\<lparr>eventType := CHECK_OUT, challengeId := demo_cid2,
                          challengeNonce := ''def456''\<rparr>)"

text \<open>Variations of the scenario: a challenge already spent; a submission with poor
  accuracy and a photo outside \<open>/uploads/\<close>; one with only the photo outside; one with
  a forged signature.\<close>

definition used_challenge :: challenge_row where
  "used_challenge = demo_challenge\<lparr>c_used_at := Some 500\<rparr>"

definition used_db :: db where
  "used_db = demo_db\<lparr>server_challenges := [used_challenge, demo_challenge2]\<rparr>"

definition far_body :: body where
  "far_body = demo_body\<lparr>accuracyMeters := 10, photoUrl := ''Riverside-Market.jpg''\<rparr>"

definition stray_body :: body where
  "stray_body = demo_body\<lparr>photoUrl := ''Riverside-Market.jpg''\<rparr>"

definition forged_body :: body where
  "forged_body = demo_body\<lparr>deviceSignature := ''KEYforged''\<rparr>"

text \<open>The scenario continued: the visit after its check-in, and after its
  check-out; a second check-out with a fresh challenge; a check-in for the same vendor
  in capitals; a check-in for another vendor.\<close>

definition open_db :: db where
  "open_db = snd (checkIn demo_env 1000 demo_vid demo_eid demo_req demo_body demo_db)"

definition closed_db :: db where
  "closed_db =
     snd (checkOut demo_env 2000 demo_vid_text demo_eid2 demo_req demo_out_body open_db)"

definition demo_out_body2 :: body where
  "demo_out_body2 =
     sign (unsigned_body\<lparr>eventType := CHECK_OUT, challengeId := demo_cid3,
                          challengeNonce := ''ghi789''\<rparr>)"

definition shouting_body :: body where
  "shouting_body =
     sign (unsigned_body\<lparr>vendorName := ''RIVERSIDE MARKET'', challengeId := demo_cid2,
                          challengeNonce := ''def456''\<rparr>)"

definition elsewhere_body :: body where
  "elsewhere_body =
     sign (unsigned_body\<lparr>vendorName := ''Hilltop Bakery'', challengeId := demo_cid2,
                          challengeNonce := ''def456''\<rparr>)"

text \<open>Two check-ins about to start, for the same vendor up to letter case.\<close>

definition first_call :: checkin_call where
  "first_call =
     \<lparr>ci_now = 1000, ci_visitId = demo_vid, ci_eventId = demo_eid, ci_req = demo_req,
      ci_body = demo_body, ci_at = checkIn_begin demo_env demo_body\<rparr>"

definition second_call :: checkin_call where
  "second_call =
     \<lparr>ci_now = 1001, ci_visitId = demo_vid2, ci_eventId = demo_eid2, ci_req = demo_req,
      ci_body = shouting_body, ci_at = checkIn_begin demo_env shouting_body\<rparr>"

text \<open>A challenge minted by the server from 24 bytes, and two submissions that
  present it: the scenario's, and one that differs in one letter of the vendor
  name.\<close>

definition minted_bytes :: "nat list" where
  "minted_bytes = [0, 16, 131, 16, 81, 135, 32, 146, 139, 48, 211, 143, 65, 20, 147, 81, 85, 151,
                   97, 150, 155, 113, 215, 159]"

definition minted_db :: db where
  "minted_db = serve demo_env [GET_challenge 0 demo_cid minted_bytes] empty_db"

definition minted_body :: body where
  "minted_body = unsigned_body\<lparr>challengeNonce := base64url minted_bytes\<rparr>"

definition relabelled_body :: body where
  "relabelled_body = minted_body\<lparr>vendorName := ''Riverside market''\<rparr>"

text \<open>The submission of the specification's end-to-end scenario, with accuracy 8.\<close>

definition scenario_body :: body where
  "scenario_body = unsigned_body\<lparr>accuracyMeters := 8\<rparr>"

section \<open>Unfolding the model\<close>

lemmas model_defs =
  startsWith_def utf16_units_def utf16_length_def event_type_str_def signing_fields_def
  buildSigningPayload_def SELECT_challenge_def UPDATE_challenge_used_def
  challenge_checks_def verifyChallenge_def try_catch_def verifySignature_try_def
  verifySignature_def getClientIp_def photoExists_def event_params_in_def
  INSERT_visit_events_def make_event_row_def insertEvent_def datetime_chars_def
  EventSchema_safeParse_def SELECT_visit_by_vendor_def INSERT_visits_def
  insert_response_def checkIn_def SELECT_visit_by_id_def checkOut_def
  INSERT_server_challenges_def createChallenge_def getChallenge_def empty_db_def
  vc_step_def checkIn_begin_def checkIn_step_def resume_def
  char_of_def bit_iff_odd Let_def sum_list_replicate

lemma read_uuid_bytes_eval:
  "todo = 0 \<Longrightarrow> read_uuid_bytes todo s = Some ([], s)"
  "todo \<noteq> 0 \<Longrightarrow> read_uuid_bytes todo [] = None"
  "todo \<noteq> 0 \<Longrightarrow> read_uuid_bytes todo [h] = None"
  "todo \<noteq> 0 \<Longrightarrow> read_uuid_bytes todo (h # l # rest) =
     (case (hex_val h, hex_val l) of
        (Some a, Some b) \<Rightarrow>
          (let rest' = (case rest of
                          c # after \<Rightarrow>
                            if c = CHR ''-'' \<and> todo mod 2 = 1 \<and> 1 < todo then after
                            else rest
                        | [] \<Rightarrow> rest)
           in case read_uuid_bytes (todo - 1) rest' of
                Some (bs, s') \<Rightarrow> Some ((16 * a + b) # bs, s')
              | None \<Rightarrow> None)
      | _ \<Rightarrow> None)"
  by (subst read_uuid_bytes.simps, simp)+

lemmas demo_defs =
  ascii_lower_char_def ascii_lower_def ascii_space_def ascii_trim_def hex_val_def
  read_uuid_bytes_eval pg_uuid_in_def demo_env_def demo_uuid_def demo_cid_def demo_cid2_def
  demo_cid3_def demo_vid_def demo_vid2_def demo_eid_def demo_eid2_def demo_eid3_def
  demo_vid_text_def demo_vid_upper_def demo_vid2_text_def not_a_uuid_def
  demo_challenge_def demo_challenge2_def demo_challenge3_def demo_db_def demo_req_def
  unsigned_body_def sign_def demo_body_def demo_out_body_def

text \<open>Evaluation of \<open>Number_toString\<close> on a numeral: the recursive functions
  unfold one step at a time, when their test is decided.\<close>

lemma nat_digits_eval:
  "n < 10 \<Longrightarrow> nat_digits n = [digit_char n]"
  "\<not> n < 10 \<Longrightarrow> nat_digits n = nat_digits (n div 10) @ [digit_char (n mod 10)]"
  by (simp_all add: nat_digits.simps [of n])

lemma trailing_zeros_eval:
  "m = 0 \<or> m mod 10 \<noteq> 0 \<Longrightarrow> trailing_zeros m = 0"
  "\<not> (m = 0 \<or> m mod 10 \<noteq> 0) \<Longrightarrow> trailing_zeros m = Suc (trailing_zeros (m div 10))"
  by (simp_all add: trailing_zeros.simps [of m])

lemma frac_places_eval:
  "fuel = 0 \<or> is_whole x \<Longrightarrow> frac_places fuel x = 0"
  "\<not> (fuel = 0 \<or> is_whole x) \<Longrightarrow> frac_places fuel x = Suc (frac_places (fuel - 1) (x * 10))"
  by (simp_all add: frac_places.simps [of fuel x])

lemma replicate_eval:
  "n = 0 \<Longrightarrow> replicate n x = []"
  "n \<noteq> 0 \<Longrightarrow> replicate n x = x # replicate (n - 1) x"
  by (cases n; simp)+

lemmas num_eval =
  Number_toString_def positive_toString_def place_point_def significand_def exponent10_def
  decimal_places_bound_def is_whole_def digit_char_def Let_def nat_digits_eval
  trailing_zeros_eval frac_places_eval replicate_eval

lemma Number_toString_5: "Number_toString 5 = ''5''"
  by (simp add: num_eval)

section \<open>Challenge consumption: the order of the rejection reasons\<close>

lemma find_None_ids: "find (\<lambda>r. f r = k) xs = None \<longleftrightarrow> k \<notin> set (map f xs)"
  by (induction xs) auto

lemma find_distinct_ids:
  "distinct (map f xs) \<Longrightarrow> row \<in> set xs \<Longrightarrow> find (\<lambda>r. f r = f row) xs = Some row"
  by (induction xs) (auto simp: rev_image_eqI)

text \<open>Claim C3. \<open>verifyChallenge\<close> rejects in a fixed order of precedence. With
  the primary key on \<open>server_challenges\<close>: when no row has the id, the reason is
  "Challenge not found"; when the row has \<open>used_at\<close> set, it is "Challenge already used"
  whatever the clock and the nonce are; when the row is unused and the clock is past
  \<open>expires_at\<close>, it is "Challenge expired" whatever nonce is presented; when the row is
  unused and not expired and the nonce differs, it is "Challenge nonce mismatch". Every
  rejection leaves the database as it was; only the remaining case succeeds and marks
  the row used.\<close>

theorem verifyChallenge_precedence:
  assumes pk: "distinct (map c_id (server_challenges d))"
  shows "(cid \<notin> set (map c_id (server_challenges d)) \<longrightarrow>
            verifyChallenge now cid nonce d = (Inl ''Challenge not found'', d))
       \<and> (\<forall>row. row \<in> set (server_challenges d) \<and> c_id row = cid \<longrightarrow>
            (c_used_at row \<noteq> None \<longrightarrow>
               verifyChallenge now cid nonce d = (Inl ''Challenge already used'', d))
          \<and> (c_used_at row = None \<and> now > c_expires_at row \<longrightarrow>
               verifyChallenge now cid nonce d = (Inl ''Challenge expired'', d))
          \<and> (c_used_at row = None \<and> now \<le> c_expires_at row \<and> c_nonce row \<noteq> nonce \<longrightarrow>
               verifyChallenge now cid nonce d = (Inl ''Challenge nonce mismatch'', d))
          \<and> (c_used_at row = None \<and> now \<le> c_expires_at row \<and> c_nonce row = nonce \<longrightarrow>
               verifyChallenge now cid nonce d = (Inr (), UPDATE_challenge_used now cid d)))"
proof (intro conjI allI impI)
  assume "cid \<notin> set (map c_id (server_challenges d))"
  then have "SELECT_challenge cid d = None"
    by (simp add: SELECT_challenge_def find_None_ids)
  then show "verifyChallenge now cid nonce d = (Inl ''Challenge not found'', d)"
    by (simp add: verifyChallenge_def challenge_checks_def)
next
  fix row
  assume r: "row \<in> set (server_challenges d) \<and> c_id row = cid"
  from r pk have sel: "SELECT_challenge cid d = Some row"
    using find_distinct_ids [of c_id "server_challenges d" row]
    by (auto simp: SELECT_challenge_def)
  {
    assume "c_used_at row \<noteq> None"
    with sel show "verifyChallenge now cid nonce d = (Inl ''Challenge already used'', d)"
      by (simp add: verifyChallenge_def challenge_checks_def)
  }
  {
    assume "c_used_at row = None \<and> now > c_expires_at row"
    with sel show "verifyChallenge now cid nonce d = (Inl ''Challenge expired'', d)"
      by (simp add: verifyChallenge_def challenge_checks_def)
  }
  {
    assume "c_used_at row = None \<and> now \<le> c_expires_at row \<and> c_nonce row \<noteq> nonce"
    with sel show "verifyChallenge now cid nonce d = (Inl ''Challenge nonce mismatch'', d)"
      by (simp add: verifyChallenge_def challenge_checks_def)
  }
  {
    assume "c_used_at row = None \<and> now \<le> c_expires_at row \<and> c_nonce row = nonce"
    with sel show "verifyChallenge now cid nonce d = (Inr (), UPDATE_challenge_used now cid d)"
      by (simp add: verifyChallenge_def challenge_checks_def)
  }
qed

theorem verifyChallenge_precedence_witness:
  "verifyChallenge 1000 demo_vid ''abc123'' demo_db = (Inl ''Challenge not found'', demo_db)
   \<and> verifyChallenge 200000 demo_cid ''wrong'' used_db = (Inl ''Challenge already used'', used_db)
   \<and> verifyChallenge 200000 demo_cid ''abc123'' demo_db = (Inl ''Challenge expired'', demo_db)
   \<and> verifyChallenge 1000 demo_cid ''wrong'' demo_db = (Inl ''Challenge nonce mismatch'', demo_db)
   \<and> verifyChallenge 1000 demo_cid ''abc123'' demo_db
       = (Inr (), UPDATE_challenge_used 1000 demo_cid demo_db)"
proof -
  have pk: "distinct (map c_id (server_challenges demo_db))"
    by (simp add: demo_defs)
  have pk': "distinct (map c_id (server_challenges used_db))"
    by (simp add: demo_defs used_db_def used_challenge_def)
  have a: "demo_vid \<notin> set (map c_id (server_challenges demo_db))"
    by (simp add: demo_defs)
  have b: "demo_challenge \<in> set (server_challenges demo_db) \<and> c_id demo_challenge = demo_cid"
    by (simp add: demo_defs)
  have c: "used_challenge \<in> set (server_challenges used_db) \<and> c_id used_challenge = demo_cid"
    by (simp add: demo_defs used_db_def used_challenge_def)
  have u: "c_used_at used_challenge \<noteq> None"
    by (simp add: used_challenge_def)
  have f: "c_used_at demo_challenge = None" "c_expires_at demo_challenge = 120000"
    "c_nonce demo_challenge = ''abc123''"
    by (simp_all add: demo_challenge_def)
  from verifyChallenge_precedence [OF pk, of demo_vid 1000 "''abc123''"] a
  have 1: "verifyChallenge 1000 demo_vid ''abc123'' demo_db = (Inl ''Challenge not found'', demo_db)"
    by blast
  from verifyChallenge_precedence [OF pk', of demo_cid 200000 "''wrong''"] c u
  have 2: "verifyChallenge 200000 demo_cid ''wrong'' used_db = (Inl ''Challenge already used'', used_db)"
    by blast
  have "c_used_at demo_challenge = None \<and> 200000 > c_expires_at demo_challenge"
    by (simp add: f)
  with verifyChallenge_precedence [OF pk, of demo_cid 200000 "''abc123''"] b
  have 3: "verifyChallenge 200000 demo_cid ''abc123'' demo_db = (Inl ''Challenge expired'', demo_db)"
    by blast
  have "c_used_at demo_challenge = None \<and> 1000 \<le> c_expires_at demo_challenge
          \<and> c_nonce demo_challenge \<noteq> ''wrong''"
    by (simp add: f)
  with verifyChallenge_precedence [OF pk, of demo_cid 1000 "''wrong''"] b
  have 4: "verifyChallenge 1000 demo_cid ''wrong'' demo_db = (Inl ''Challenge nonce mismatch'', demo_db)"
    by blast
  have "c_used_at demo_challenge = None \<and> 1000 \<le> c_expires_at demo_challenge
          \<and> c_nonce demo_challenge = ''abc123''"
    by (simp add: f)
  with verifyChallenge_precedence [OF pk, of demo_cid 1000 "''abc123''"] b
  have 5: "verifyChallenge 1000 demo_cid ''abc123'' demo_db
       = (Inr (), UPDATE_challenge_used 1000 demo_cid demo_db)"
    by blast
  from 1 2 3 4 5 show ?thesis by blast
qed

section \<open>The signature verifier never throws\<close>

text \<open>Claim C7. \<open>verifySignature\<close> returns a boolean on every input: it never
  throws. When \<open>createPublicKey\<close> throws on the key material, or \<open>crypto.verify\<close>
  throws on the signature, the result is \<open>false\<close>; when neither throws, the result is
  what \<open>crypto.verify\<close> returned.\<close>

theorem verifySignature_total:
  "(\<exists>ok. verifySignature en k s p = Inr ok)
   \<and> (\<forall>e. createPublicKey en (Buffer_from_base64 en k) = Inl e \<longrightarrow>
          verifySignature en k s p = Inr False)
   \<and> (\<forall>key e. createPublicKey en (Buffer_from_base64 en k) = Inr key
          \<and> crypto_verify en p key (Buffer_from_base64 en s) = Inl e \<longrightarrow>
          verifySignature en k s p = Inr False)
   \<and> (\<forall>key ok. createPublicKey en (Buffer_from_base64 en k) = Inr key
          \<and> crypto_verify en p key (Buffer_from_base64 en s) = Inr ok \<longrightarrow>
          verifySignature en k s p = Inr ok)"
  by (auto simp: verifySignature_def verifySignature_try_def try_catch_def Let_def
           split: sum.splits)


theorem verifySignature_total_witness:
  "createPublicKey demo_env (Buffer_from_base64 demo_env ''not a key'') = Inl Thrown
   \<and> verifySignature demo_env ''not a key'' ''sig'' ''payload'' = Inr False
   \<and> createPublicKey demo_env (Buffer_from_base64 demo_env ''KEY'') = Inr ''KEY''
   \<and> crypto_verify demo_env ''payload'' ''KEY'' (Buffer_from_base64 demo_env ''KEYpayload'')
       = Inr True
   \<and> verifySignature demo_env ''KEY'' ''KEYpayload'' ''payload'' = Inr True"
proof -
  have a: "createPublicKey demo_env (Buffer_from_base64 demo_env ''not a key'') = Inl Thrown"
    by (simp add: demo_env_def)
  have b: "createPublicKey demo_env (Buffer_from_base64 demo_env ''KEY'') = Inr ''KEY''
           \<and> crypto_verify demo_env ''payload'' ''KEY''
               (Buffer_from_base64 demo_env ''KEYpayload'') = Inr True"
    by (simp add: demo_env_def)
  from verifySignature_total [of demo_env "''not a key''" "''sig''" "''payload''"] a
  have 1: "verifySignature demo_env ''not a key'' ''sig'' ''payload'' = Inr False"
    by blast
  from verifySignature_total [of demo_env "''KEY''" "''KEYpayload''" "''payload''"] b
  have 2: "verifySignature demo_env ''KEY'' ''KEYpayload'' ''payload'' = Inr True"
    by blast
  from a b 1 2 show ?thesis by blast
qed

section \<open>The precondition gate runs before challenge consumption\<close>

lemma find_map_used:
  "find (\<lambda>r. c_id r = cid) (map (\<lambda>r. if c_id r = k then r\<lparr>c_used_at := Some t\<rparr> else r) xs)
     = map_option (\<lambda>r. if c_id r = k then r\<lparr>c_used_at := Some t\<rparr> else r)
         (find (\<lambda>r. c_id r = cid) xs)"
  by (induction xs) auto

lemma used_UPDATE:
  "challenge_used cid d \<Longrightarrow> challenge_used cid (UPDATE_challenge_used t k d)"
  by (auto simp: challenge_used_def SELECT_challenge_def UPDATE_challenge_used_def
        find_map_used split: option.splits)

lemma used_after_UPDATE:
  "SELECT_challenge cid d \<noteq> None \<Longrightarrow> challenge_used cid (UPDATE_challenge_used t cid d)"
  by (auto simp: challenge_used_def SELECT_challenge_def UPDATE_challenge_used_def
        find_map_used split: option.splits dest: find_Some_iff [THEN iffD1])

lemma used_cong:
  "server_challenges d' = server_challenges d \<Longrightarrow> challenge_used cid d' = challenge_used cid d"
  by (simp add: challenge_used_def SELECT_challenge_def)

lemma find_append_found:
  "find P xs \<noteq> None \<Longrightarrow> find P (xs @ ys) = find P xs"
  by (induction xs) auto

lemma used_INSERT_challenge:
  "challenge_used cid d \<Longrightarrow> INSERT_server_challenges row d = Inr d' \<Longrightarrow> challenge_used cid d'"
  by (auto simp: challenge_used_def SELECT_challenge_def INSERT_server_challenges_def
        find_append_found split: option.splits if_splits)

lemma challenges_INSERT_visit_events:
  "INSERT_visit_events en row d = Inr d2 \<Longrightarrow> server_challenges d2 = server_challenges d"
  by (auto simp: INSERT_visit_events_def split: if_splits)

lemma challenges_INSERT_visits:
  "INSERT_visits en row d = Inr d1 \<Longrightarrow> server_challenges d1 = server_challenges d"
  by (auto simp: INSERT_visits_def split: if_splits)

lemma verifyChallenge_cases:
  "(\<exists>reason. verifyChallenge now cid nonce d = (Inl reason, d))
   \<or> verifyChallenge now cid nonce d = (Inr (), UPDATE_challenge_used now cid d)"
  by (cases "challenge_checks now nonce (SELECT_challenge cid d)")
     (simp_all add: verifyChallenge_def)

lemma used_insertEvent:
  assumes u: "challenge_used cid d"
  shows "challenge_used cid (snd (insertEvent en now newId visitId b r d))"
proof -
  let ?d1 = "UPDATE_challenge_used now (challengeId b) d"
  have u1: "challenge_used cid ?d1" using u by (rule used_UPDATE)
  have u2: "\<And>row d2. INSERT_visit_events en row ?d1 = Inr d2 \<Longrightarrow> challenge_used cid d2"
    using u1 challenges_INSERT_visit_events used_cong by blast
  from verifyChallenge_cases [of now "challengeId b" "challengeNonce b" d]
  show ?thesis
  proof
    assume "\<exists>reason. verifyChallenge now (challengeId b) (challengeNonce b) d = (Inl reason, d)"
    then show ?thesis using u by (auto simp: insertEvent_def)
  next
    assume "verifyChallenge now (challengeId b) (challengeNonce b) d = (Inr (), ?d1)"
    then show ?thesis using u u1 u2
      by (simp add: insertEvent_def split: sum.splits)
  qed
qed

lemma used_checkIn:
  assumes u: "challenge_used cid d"
  shows "challenge_used cid (snd (checkIn en now visitId eventId r b d))"
proof (cases "INSERT_visits en
                \<lparr>v_id = visitId, v_vendor_name = trim en (vendorName b), v_created_at = now\<rparr> d")
  case (Inl e)
  then show ?thesis using u
    by (simp add: checkIn_def split: sum.splits option.splits)
next
  case (Inr d1)
  then have "challenge_used cid d1"
    using u challenges_INSERT_visits used_cong by blast
  then have "challenge_used cid (snd (insertEvent en now eventId visitId b r d1))"
    by (rule used_insertEvent)
  then show ?thesis using u Inr
    by (auto simp: checkIn_def split: prod.splits sum.splits option.splits)
qed

lemma used_checkOut:
  assumes u: "challenge_used cid d"
  shows "challenge_used cid (snd (checkOut en now visitId eventId r b d))"
proof -
  have "\<And>vid. challenge_used cid (snd (insertEvent en now eventId vid b r d))"
    using u by (rule used_insertEvent)
  then show ?thesis using u
    by (auto simp: checkOut_def Let_def split: option.splits prod.splits sum.splits)
       (metis snd_conv)
qed

lemma used_getChallenge:
  "challenge_used cid d \<Longrightarrow> challenge_used cid (snd (getChallenge en now newId nonce d))"
  by (auto simp: getChallenge_def createChallenge_def Let_def
        split: sum.splits prod.splits dest: used_INSERT_challenge)

lemma used_handle:
  "challenge_used cid d \<Longrightarrow> challenge_used cid (snd (handle en q d))"
  by (cases q) (simp_all add: used_checkIn used_checkOut used_getChallenge)

lemma used_serve:
  "challenge_used cid d \<Longrightarrow> challenge_used cid (serve en qs d)"
  by (induction qs arbitrary: d) (simp_all add: used_handle)

lemma used_verifyChallenge:
  "challenge_used cid d \<Longrightarrow> verifyChallenge now cid nonce d = (Inl ''Challenge already used'', d)"
  by (auto simp: challenge_used_def verifyChallenge_def challenge_checks_def
        split: option.splits)


text \<open>Claim C8. A submission that passes the precondition gate and consumes its
  challenge, and whose signature then fails, is answered "Invalid device signature" and
  leaves the challenge marked used: nothing is rolled back, the row stays used through
  every later sequence of requests, and every later \<open>verifyChallenge\<close> on that id is
  rejected as already used. A submission rejected by the gate (accuracy above the
  threshold, or photo missing) leaves the database, hence the challenge, untouched.\<close>

theorem challenge_spent_on_bad_signature:
  "(accuracyMeters b \<le> ACCURACY_THRESHOLD_METERS en \<and> photoExists en (photoUrl b)
      \<and> fst (verifyChallenge now (challengeId b) (challengeNonce b) d) = Inr ()
      \<and> verifySignature en (devicePublicKey b) (deviceSignature b)
            (buildSigningPayload (String_num en) b) = Inr False
    \<longrightarrow> insertEvent en now newId visitId b r d
          = (Fail 400 ''Invalid device signature'',
             UPDATE_challenge_used now (challengeId b) d)
        \<and> challenge_used (challengeId b) (snd (insertEvent en now newId visitId b r d))
        \<and> (\<forall>qs. challenge_used (challengeId b)
                    (serve en qs (snd (insertEvent en now newId visitId b r d))))
        \<and> (\<forall>qs now' nonce'.
              fst (verifyChallenge now' (challengeId b) nonce'
                     (serve en qs (snd (insertEvent en now newId visitId b r d))))
                = Inl ''Challenge already used''))
   \<and> (accuracyMeters b > ACCURACY_THRESHOLD_METERS en \<or> \<not> photoExists en (photoUrl b)
    \<longrightarrow> snd (insertEvent en now newId visitId b r d) = d
        \<and> (\<exists>err. fst (insertEvent en now newId visitId b r d) = Fail 400 err))"
proof (rule conjI [rotated])
  show "accuracyMeters b > ACCURACY_THRESHOLD_METERS en \<or> \<not> photoExists en (photoUrl b)
    \<longrightarrow> snd (insertEvent en now newId visitId b r d) = d
        \<and> (\<exists>err. fst (insertEvent en now newId visitId b r d) = Fail 400 err)"
    by (auto simp: insertEvent_def)
next
  let ?d1 = "UPDATE_challenge_used now (challengeId b) d"
  let ?ie = "insertEvent en now newId visitId b r d"
  {
    assume h: "accuracyMeters b \<le> ACCURACY_THRESHOLD_METERS en \<and> photoExists en (photoUrl b)
      \<and> fst (verifyChallenge now (challengeId b) (challengeNonce b) d) = Inr ()
      \<and> verifySignature en (devicePublicKey b) (deviceSignature b)
            (buildSigningPayload (String_num en) b) = Inr False"
    from h verifyChallenge_cases [of now "challengeId b" "challengeNonce b" d]
    have vc: "verifyChallenge now (challengeId b) (challengeNonce b) d = (Inr (), ?d1)"
      by auto
    then have sel: "SELECT_challenge (challengeId b) d \<noteq> None"
      by (auto simp: verifyChallenge_def challenge_checks_def split: option.splits)
    from h vc have ie: "?ie = (Fail 400 ''Invalid device signature'', ?d1)"
      by (simp add: insertEvent_def)
    from sel have "challenge_used (challengeId b) ?d1"
      by (rule used_after_UPDATE)
    with ie have u: "challenge_used (challengeId b) (snd ?ie)"
      by simp
    then have perm: "\<forall>qs. challenge_used (challengeId b) (serve en qs (snd ?ie))"
      by (simp add: used_serve)
    then have "\<forall>qs now' nonce'.
        fst (verifyChallenge now' (challengeId b) nonce' (serve en qs (snd ?ie)))
          = Inl ''Challenge already used''"
      by (simp add: used_verifyChallenge)
    with ie u perm
    have "?ie = (Fail 400 ''Invalid device signature'', ?d1)
        \<and> challenge_used (challengeId b) (snd ?ie)
        \<and> (\<forall>qs. challenge_used (challengeId b) (serve en qs (snd ?ie)))
        \<and> (\<forall>qs now' nonce'.
              fst (verifyChallenge now' (challengeId b) nonce' (serve en qs (snd ?ie)))
                = Inl ''Challenge already used'')"
      by blast
  }
  then show "accuracyMeters b \<le> ACCURACY_THRESHOLD_METERS en \<and> photoExists en (photoUrl b)
      \<and> fst (verifyChallenge now (challengeId b) (challengeNonce b) d) = Inr ()
      \<and> verifySignature en (devicePublicKey b) (deviceSignature b)
            (buildSigningPayload (String_num en) b) = Inr False
    \<longrightarrow> ?ie = (Fail 400 ''Invalid device signature'', ?d1)
        \<and> challenge_used (challengeId b) (snd ?ie)
        \<and> (\<forall>qs. challenge_used (challengeId b) (serve en qs (snd ?ie)))
        \<and> (\<forall>qs now' nonce'.
              fst (verifyChallenge now' (challengeId b) nonce' (serve en qs (snd ?ie)))
                = Inl ''Challenge already used'')"
    by blast
qed

theorem challenge_spent_on_bad_signature_witness:
  "insertEvent demo_env 1000 demo_eid demo_vid forged_body demo_req demo_db
     = (Fail 400 ''Invalid device signature'', UPDATE_challenge_used 1000 demo_cid demo_db)
   \<and> challenge_used demo_cid
        (snd (insertEvent demo_env 1000 demo_eid demo_vid forged_body demo_req demo_db))
   \<and> fst (verifyChallenge 2000 demo_cid ''abc123''
        (serve demo_env [POST_check_in 1500 demo_vid demo_eid demo_req demo_body]
           (snd (insertEvent demo_env 1000 demo_eid demo_vid forged_body demo_req demo_db))))
      = Inl ''Challenge already used''
   \<and> snd (insertEvent demo_env 1000 demo_eid demo_vid far_body demo_req demo_db) = demo_db
   \<and> \<not> challenge_used demo_cid
        (snd (insertEvent demo_env 1000 demo_eid demo_vid far_body demo_req demo_db))"
proof -
  have h: "accuracyMeters forged_body \<le> ACCURACY_THRESHOLD_METERS demo_env
      \<and> photoExists demo_env (photoUrl forged_body)
      \<and> fst (verifyChallenge 1000 (challengeId forged_body) (challengeNonce forged_body)
               demo_db) = Inr ()
      \<and> verifySignature demo_env (devicePublicKey forged_body) (deviceSignature forged_body)
            (buildSigningPayload (String_num demo_env) forged_body) = Inr False"
    by (simp add: forged_body_def model_defs demo_defs)
  have c: "challengeId forged_body = demo_cid"
    by (simp add: forged_body_def demo_defs)
  have g: "accuracyMeters far_body > ACCURACY_THRESHOLD_METERS demo_env
             \<or> \<not> photoExists demo_env (photoUrl far_body)"
    by (simp add: far_body_def demo_defs)
  have n: "\<not> challenge_used demo_cid demo_db"
    by (simp add: challenge_used_def SELECT_challenge_def demo_defs)
  note s1 = challenge_spent_on_bad_signature
         [of forged_body demo_env 1000 demo_db demo_eid demo_vid demo_req, THEN conjunct1,
          rule_format, OF h, unfolded c]
  note s2 = challenge_spent_on_bad_signature
         [of far_body demo_env 1000 demo_db demo_eid demo_vid demo_req, THEN conjunct2,
          rule_format, OF g]
  from s1 have 1: "insertEvent demo_env 1000 demo_eid demo_vid forged_body demo_req demo_db
     = (Fail 400 ''Invalid device signature'', UPDATE_challenge_used 1000 demo_cid demo_db)"
    by blast
  from s1 have 2: "challenge_used demo_cid
        (snd (insertEvent demo_env 1000 demo_eid demo_vid forged_body demo_req demo_db))"
    by blast
  from s1 have 3: "fst (verifyChallenge 2000 demo_cid ''abc123''
        (serve demo_env [POST_check_in 1500 demo_vid demo_eid demo_req demo_body]
           (snd (insertEvent demo_env 1000 demo_eid demo_vid forged_body demo_req demo_db))))
      = Inl ''Challenge already used''"
    by blast
  from s2 have 4: "snd (insertEvent demo_env 1000 demo_eid demo_vid far_body demo_req demo_db)
      = demo_db"
    by blast
  from 1 2 3 4 n show ?thesis by simp
qed

text \<open>Claim C10, as amended. When \<open>photoUrl\<close> does not begin with \<open>/uploads/\<close>,
  \<open>photoExists\<close> is false whatever the file system holds, and \<open>insertEvent\<close> rejects
  before \<open>verifyChallenge\<close> runs, the database unchanged: with "Photo not found. Upload
  photo first." when the accuracy is within the threshold, and with the accuracy error,
  whose check comes first, when it is not.\<close>

theorem photo_prefix_gate:
  assumes "\<not> startsWith (photoUrl b) ''/uploads/''"
  shows "(\<forall>ex. photoExists (en\<lparr>fs_existsSync := ex\<rparr>) (photoUrl b) = False)
       \<and> (accuracyMeters b \<le> ACCURACY_THRESHOLD_METERS en \<longrightarrow>
            (\<forall>ex. insertEvent (en\<lparr>fs_existsSync := ex\<rparr>) now newId visitId b r d
                   = (Fail 400 ''Photo not found. Upload photo first.'', d)))
       \<and> (accuracyMeters b > ACCURACY_THRESHOLD_METERS en \<longrightarrow>
            insertEvent en now newId visitId b r d
              = (Fail 400 (''Accuracy must be <= ''
                    @ String_num en (ACCURACY_THRESHOLD_METERS en) @ '' meters''), d))"
  using assms by (simp add: photoExists_def insertEvent_def)

theorem photo_prefix_gate_witness:
  "\<not> startsWith (photoUrl stray_body) ''/uploads/''
   \<and> accuracyMeters stray_body \<le> ACCURACY_THRESHOLD_METERS demo_env
   \<and> insertEvent (demo_env\<lparr>fs_existsSync := (\<lambda>p. True)\<rparr>) 1000 demo_eid demo_vid stray_body
        demo_req demo_db
      = (Fail 400 ''Photo not found. Upload photo first.'', demo_db)"
proof -
  have a: "\<not> startsWith (photoUrl stray_body) ''/uploads/''"
    by (simp add: stray_body_def startsWith_def)
  have b: "accuracyMeters stray_body \<le> ACCURACY_THRESHOLD_METERS demo_env"
    by (simp add: stray_body_def demo_defs)
  from photo_prefix_gate [OF a, of demo_env 1000 demo_eid demo_vid demo_req demo_db] a b
  show ?thesis by blast
qed

theorem photo_prefix_gate_counterexample:
  "\<not> startsWith (photoUrl far_body) ''/uploads/''
   \<and> fst (insertEvent demo_env 1000 demo_eid demo_vid far_body demo_req demo_db)
       = Fail 400 ''Accuracy must be <= 5 meters''
   \<and> fst (insertEvent demo_env 1000 demo_eid demo_vid far_body demo_req demo_db)
       \<noteq> Fail 400 ''Photo not found. Upload photo first.''"
  by (simp add: far_body_def insertEvent_def startsWith_def demo_defs Number_toString_5)

section \<open>Challenge consumption by several callers\<close>

text \<open>The two models of \<open>verifyChallenge\<close> agree: a caller resumed twice with nobody
  in between does what the uninterrupted function does.\<close>

lemma vc_step_twice:
  "(case vc_step now cid nonce AwaitSelect d of
      (pc, d1) \<Rightarrow> vc_step now cid nonce pc d1)
   = (Returned (fst (verifyChallenge now cid nonce d)), snd (verifyChallenge now cid nonce d))"
  by (cases "challenge_checks now nonce (SELECT_challenge cid d)")
     (simp_all add: vc_step_def verifyChallenge_def)

lemma verifyChallenge_ok_used:
  assumes "verifyChallenge now cid nonce d = (Inr u, d')"
  shows "challenge_used cid d'"
proof -
  from assms have "SELECT_challenge cid d \<noteq> None" and "d' = UPDATE_challenge_used now cid d"
    by (auto simp: verifyChallenge_def challenge_checks_def split: option.splits if_splits)
  then show ?thesis by (simp add: used_after_UPDATE)
qed

lemma verifyChallenge_rejected_same:
  assumes "verifyChallenge now cid nonce d = (Inl reason, d')"
  shows "d' = d"
  using assms verifyChallenge_cases [of now cid nonce d] by auto

lemma consume_all_used:
  "challenge_used cid d \<Longrightarrow>
     consume_all cid calls d = (replicate (length calls) (Inl ''Challenge already used''), d)"
  by (induction calls) (auto simp: used_verifyChallenge)

lemma consume_all_at_most_one:
  "length (filter (\<lambda>res. res = Inr ()) (fst (consume_all cid calls d))) \<le> 1"
proof (induction calls arbitrary: d)
  case Nil
  show ?case by simp
next
  case (Cons c calls)
  obtain now nonce where c: "c = (now, nonce)" by (cases c)
  obtain res d1 where v: "verifyChallenge now cid nonce d = (res, d1)"
    by (cases "verifyChallenge now cid nonce d")
  show ?case
  proof (cases res)
    case (Inl reason)
    with c v Cons.IH [of d1] show ?thesis
      by (auto split: prod.splits)
  next
    case (Inr u)
    with v have "challenge_used cid d1" by (simp add: verifyChallenge_ok_used)
    then have "consume_all cid calls d1
                 = (replicate (length calls) (Inl ''Challenge already used''), d1)"
      by (rule consume_all_used)
    with c v Inr show ?thesis by simp
  qed
qed

text \<open>Claim C2, as amended. Among calls of \<open>verifyChallenge\<close> for one challenge id
  that do not overlap, at most one succeeds; when the challenge exists, is unused, and
  every call presents the stored nonce before expiry, the first call succeeds and each
  of the others is rejected with "Challenge already used". (The function is a SELECT
  followed by an UPDATE that carries no condition on \<open>used_at\<close>; the guarantee is for
  calls that run one after another.)\<close>

theorem consume_sequential_once:
  "length (filter (\<lambda>res. res = Inr ()) (fst (consume_all cid calls d))) \<le> 1
   \<and> (\<forall>row. SELECT_challenge cid d = Some row \<and> c_used_at row = None \<and> calls \<noteq> []
          \<and> (\<forall>c \<in> set calls. fst c \<le> c_expires_at row \<and> snd c = c_nonce row)
        \<longrightarrow> fst (consume_all cid calls d)
              = Inr () # replicate (length calls - 1) (Inl ''Challenge already used''))"
proof (intro conjI allI impI)
  show "length (filter (\<lambda>res. res = Inr ()) (fst (consume_all cid calls d))) \<le> 1"
    by (rule consume_all_at_most_one)
next
  fix row
  assume h: "SELECT_challenge cid d = Some row \<and> c_used_at row = None \<and> calls \<noteq> []
          \<and> (\<forall>c \<in> set calls. fst c \<le> c_expires_at row \<and> snd c = c_nonce row)"
  then obtain now nonce rest where calls: "calls = (now, nonce) # rest"
    by (cases calls) auto
  with h have v: "verifyChallenge now cid nonce d = (Inr (), UPDATE_challenge_used now cid d)"
    by (simp add: verifyChallenge_def challenge_checks_def)
  then have "challenge_used cid (UPDATE_challenge_used now cid d)"
    by (rule verifyChallenge_ok_used)
  then have "consume_all cid rest (UPDATE_challenge_used now cid d)
               = (replicate (length rest) (Inl ''Challenge already used''),
                  UPDATE_challenge_used now cid d)"
    by (rule consume_all_used)
  with calls v show "fst (consume_all cid calls d)
              = Inr () # replicate (length calls - 1) (Inl ''Challenge already used'')"
    by simp
qed

theorem consume_sequential_once_witness:
  "fst (consume_all demo_cid [(1000, ''abc123''), (1001, ''abc123''), (1002, ''abc123'')] demo_db)
     = [Inr (), Inl ''Challenge already used'', Inl ''Challenge already used'']"
proof -
  have h: "SELECT_challenge demo_cid demo_db = Some demo_challenge
      \<and> c_used_at demo_challenge = None
      \<and> [(1000, ''abc123''), (1001, ''abc123''), (1002::int, ''abc123'')] \<noteq> []
      \<and> (\<forall>c \<in> set [(1000, ''abc123''), (1001, ''abc123''), (1002::int, ''abc123'')].
            fst c \<le> c_expires_at demo_challenge \<and> snd c = c_nonce demo_challenge)"
    by (simp add: SELECT_challenge_def demo_defs)
  from consume_sequential_once
         [of demo_cid "[(1000, ''abc123''), (1001, ''abc123''), (1002, ''abc123'')]" demo_db,
          THEN conjunct2, rule_format, OF h]
  show ?thesis by (simp add: numeral_3_eq_3)
qed

text \<open>Two callers present the same valid challenge; both SELECT before either
  UPDATEs. Both return success.\<close>

theorem consume_overlapping_counterexample:
  "map snd (fst (run_schedule demo_cid [(0, 1000), (1, 1000), (0, 1001), (1, 1001)]
                   [(''abc123'', AwaitSelect), (''abc123'', AwaitSelect)] demo_db))
     = [Returned (Inr ()), Returned (Inr ())]"
  by (simp add: vc_step_def challenge_checks_def SELECT_challenge_def
        UPDATE_challenge_used_def demo_defs)


section \<open>What a handler writes\<close>

lemma verifySignature_returns: "\<exists>ok. verifySignature en k s p = Inr ok"
  by (auto simp: verifySignature_def verifySignature_try_def try_catch_def Let_def
        split: sum.splits)

lemma tables_UPDATE_challenge_used:
  "visits (UPDATE_challenge_used t cid d) = visits d"
  "visit_events (UPDATE_challenge_used t cid d) = visit_events d"
  by (simp_all add: UPDATE_challenge_used_def)

lemma tables_verifyChallenge:
  "visits (snd (verifyChallenge now cid nonce d)) = visits d"
  "visit_events (snd (verifyChallenge now cid nonce d)) = visit_events d"
  using verifyChallenge_cases [of now cid nonce d]
  by (auto simp: tables_UPDATE_challenge_used)

text \<open>\<open>insertEvent\<close> either fails and stores no event, or appends one event row
  that the unique indexes admit. It never rejects its promise and never writes to
  \<open>visits\<close>.\<close>

lemma insertEvent_outcome:
  "(\<exists>st err d'. insertEvent en now newId visitId b r d = (Fail st err, d')
        \<and> visits d' = visits d \<and> visit_events d' = visit_events d)
   \<or> (\<exists>d'. insertEvent en now newId visitId b r d = (Ok newId, d')
        \<and> visits d' = visits d
        \<and> visit_events d' = visit_events d @ [make_event_row en now newId visitId b r]
        \<and> (visitId, eventType b)
             \<notin> set (map (\<lambda>e. (e_visit_id e, e_event_type e)) (visit_events d)))"
proof -
  obtain res d1 where v: "verifyChallenge now (challengeId b) (challengeNonce b) d = (res, d1)"
    by (cases "verifyChallenge now (challengeId b) (challengeNonce b) d")
  with tables_verifyChallenge [of now "challengeId b" "challengeNonce b" d]
  have t: "visits d1 = visits d" "visit_events d1 = visit_events d"
    by simp_all
  obtain ok where s: "verifySignature en (devicePublicKey b) (deviceSignature b)
                        (buildSigningPayload (String_num en) b) = Inr ok"
    using verifySignature_returns by blast
  show ?thesis
  proof (cases "INSERT_visit_events en (make_event_row en now newId visitId b r) d1")
    case (Inl e)
    with v t s show ?thesis
      by (cases res) (simp_all add: insertEvent_def)
  next
    case (Inr d2)
    then have "visits d2 = visits d1"
      "visit_events d2 = visit_events d1 @ [make_event_row en now newId visitId b r]"
      "(visitId, eventType b)
         \<notin> set (map (\<lambda>e. (e_visit_id e, e_event_type e)) (visit_events d1))"
      by (auto simp: INSERT_visit_events_def make_event_row_def split: if_splits)
    with v t s Inr show ?thesis
      by (cases res) (simp_all add: insertEvent_def)
  qed
qed

lemma events_unique_insertEvent:
  assumes "events_unique d"
  shows "events_unique (snd (insertEvent en now newId visitId b r d))"
  using insertEvent_outcome [of en now newId visitId b r d] assms
  by (auto simp: events_unique_def make_event_row_def)

lemma vendor_unique_insertEvent:
  assumes "vendor_unique en d"
  shows "vendor_unique en (snd (insertEvent en now newId visitId b r d))"
  using insertEvent_outcome [of en now newId visitId b r d] assms
  by (auto simp: vendor_unique_def)

lemma INSERT_visits_Inr:
  assumes "INSERT_visits en row d = Inr d1"
  shows "visits d1 = visits d @ [row]" "visit_events d1 = visit_events d"
    "LOWER en (v_vendor_name row)
       \<notin> set (map (\<lambda>v. LOWER en (v_vendor_name v)) (visits d))"
  using assms by (auto simp: INSERT_visits_def split: if_splits)

lemma invariants_checkIn:
  assumes "vendor_unique en d \<and> events_unique d"
  shows "vendor_unique en (snd (checkIn en now visitId eventId r b d))
         \<and> events_unique (snd (checkIn en now visitId eventId r b d))"
proof (cases "INSERT_visits en
                \<lparr>v_id = visitId, v_vendor_name = trim en (vendorName b), v_created_at = now\<rparr> d")
  case (Inl e)
  then show ?thesis using assms by (simp add: checkIn_def split: sum.splits option.splits)
next
  case (Inr d1)
  from INSERT_visits_Inr [OF Inr] assms have "vendor_unique en d1" "events_unique d1"
    by (auto simp: vendor_unique_def events_unique_def)
  then have "vendor_unique en (snd (insertEvent en now eventId visitId b r d1))
             \<and> events_unique (snd (insertEvent en now eventId visitId b r d1))"
    by (simp add: vendor_unique_insertEvent events_unique_insertEvent)
  then show ?thesis using assms Inr
    by (auto simp: checkIn_def split: prod.splits sum.splits option.splits)
qed

lemma invariants_checkOut:
  assumes "vendor_unique en d \<and> events_unique d"
  shows "vendor_unique en (snd (checkOut en now visitId eventId r b d))
         \<and> events_unique (snd (checkOut en now visitId eventId r b d))"
proof -
  have "vendor_unique en (snd (insertEvent en now eventId vid b r d))
        \<and> events_unique (snd (insertEvent en now eventId vid b r d))" for vid
    using assms by (simp add: vendor_unique_insertEvent events_unique_insertEvent)
  then show ?thesis using assms
    by (auto simp: checkOut_def Let_def split: option.splits prod.splits sum.splits)
      (metis snd_conv)+
qed

lemma invariants_getChallenge:
  assumes "vendor_unique en d \<and> events_unique d"
  shows "vendor_unique en (snd (getChallenge en now newId nonce d))
         \<and> events_unique (snd (getChallenge en now newId nonce d))"
  using assms
  by (auto simp: getChallenge_def createChallenge_def INSERT_server_challenges_def Let_def
        vendor_unique_def events_unique_def split: sum.splits prod.splits if_splits)

lemma invariants_handle:
  "vendor_unique en d \<and> events_unique d \<Longrightarrow>
     vendor_unique en (snd (handle en q d)) \<and> events_unique (snd (handle en q d))"
  by (cases q) (simp_all add: invariants_checkIn invariants_checkOut invariants_getChallenge)

lemma invariants_serve:
  "vendor_unique en d \<and> events_unique d \<Longrightarrow>
     vendor_unique en (serve en qs d) \<and> events_unique (serve en qs d)"
proof (induction qs arbitrary: d)
  case Nil
  then show ?case by simp
next
  case (Cons q qs)
  from Cons.prems have "vendor_unique en (snd (handle en q d)) \<and> events_unique (snd (handle en q d))"
    by (rule invariants_handle)
  then show ?case using Cons.IH by simp
qed

lemma invariants_empty: "vendor_unique en empty_db \<and> events_unique empty_db"
  by (simp add: vendor_unique_def events_unique_def empty_db_def)


section \<open>Check-in: the visit row and its event\<close>

lemma open_db_eval:
  "visits open_db
     = [\<lparr>v_id = demo_vid, v_vendor_name = ''Riverside Market'', v_created_at = 1000\<rparr>]"
  "map (\<lambda>e. (e_id e, e_visit_id e, e_event_type e)) (visit_events open_db)
     = [(demo_eid, demo_vid, CHECK_IN)]"
  "server_challenges open_db
     = [demo_challenge\<lparr>c_used_at := Some 1000\<rparr>, demo_challenge2, demo_challenge3]"
  by (simp_all add: open_db_def model_defs demo_defs num_eval)

text \<open>Claim C1, as amended. \<open>POST /api/visits/check-in\<close> inserts the visit row
  before it calls \<open>insertEvent\<close> and has no rollback: when the pre-check found no visit
  of that vendor name, the visit row has been inserted and \<open>insertEvent\<close> then fails
  (accuracy, photo, challenge, signature or the event insert), the handler answers
  with that failure, no event row is stored, and the visit row with the trimmed vendor
  name stays in \<open>visits\<close>.\<close>

theorem checkIn_no_rollback:
  assumes "EventSchema_safeParse en b" and "eventType b = CHECK_IN"
    and "SELECT_visit_by_vendor en (vendorName b) d = Inr None"
    and "INSERT_visits en
           \<lparr>v_id = visitId, v_vendor_name = trim en (vendorName b), v_created_at = now\<rparr> d
         = Inr d1"
    and "fst (insertEvent en now eventId visitId b r d1) = Fail st err"
  shows "fst (checkIn en now visitId eventId r b d) = Json st (ErrorBody err)
       \<and> visits (snd (checkIn en now visitId eventId r b d))
           = visits d @ [\<lparr>v_id = visitId, v_vendor_name = trim en (vendorName b),
                           v_created_at = now\<rparr>]
       \<and> visit_events (snd (checkIn en now visitId eventId r b d)) = visit_events d"
proof -
  from INSERT_visits_Inr [OF assms(4)]
  have d1: "visits d1 = visits d @ [\<lparr>v_id = visitId, v_vendor_name = trim en (vendorName b),
                                        v_created_at = now\<rparr>]"
    "visit_events d1 = visit_events d"
    by simp_all
  obtain res d2 where ie: "insertEvent en now eventId visitId b r d1 = (res, d2)"
    by (cases "insertEvent en now eventId visitId b r d1")
  with assms(5) have res: "res = Fail st err" by simp
  from insertEvent_outcome [of en now eventId visitId b r d1] ie res
  have "visits d2 = visits d1" "visit_events d2 = visit_events d1"
    by auto
  with d1 ie res assms(1-4) show ?thesis
    by (simp add: checkIn_def insert_response_def)
qed

theorem checkIn_no_rollback_witness:
  "fst (checkIn demo_env 1000 demo_vid demo_eid demo_req forged_body demo_db)
     = Json 400 (ErrorBody ''Invalid device signature'')
   \<and> visits (snd (checkIn demo_env 1000 demo_vid demo_eid demo_req forged_body demo_db))
       = [\<lparr>v_id = demo_vid, v_vendor_name = ''Riverside Market'', v_created_at = 1000\<rparr>]
   \<and> visit_events (snd (checkIn demo_env 1000 demo_vid demo_eid demo_req forged_body demo_db))
       = []"
proof -
  let ?d1 = "demo_db\<lparr>visits :=
               [\<lparr>v_id = demo_vid, v_vendor_name = ''Riverside Market'', v_created_at = 1000\<rparr>]\<rparr>"
  have 1: "EventSchema_safeParse demo_env forged_body"
    by (simp add: forged_body_def model_defs demo_defs)
  have 2: "eventType forged_body = CHECK_IN"
    by (simp add: forged_body_def demo_defs)
  have 3: "SELECT_visit_by_vendor demo_env (vendorName forged_body) demo_db = Inr None"
    by (simp add: forged_body_def model_defs demo_defs)
  have 4: "INSERT_visits demo_env
             \<lparr>v_id = demo_vid, v_vendor_name = trim demo_env (vendorName forged_body),
                v_created_at = 1000\<rparr> demo_db = Inr ?d1"
    by (simp add: forged_body_def model_defs demo_defs)
  have 5: "fst (insertEvent demo_env 1000 demo_eid demo_vid forged_body demo_req ?d1)
             = Fail 400 ''Invalid device signature''"
    by (simp add: forged_body_def model_defs demo_defs num_eval)
  have t: "trim demo_env (vendorName forged_body) = ''Riverside Market''"
    by (simp add: forged_body_def model_defs demo_defs)
  from checkIn_no_rollback [OF 1 2 3 4 5] t show ?thesis
    by (simp add: demo_db_def)
qed

theorem checkIn_atomic_counterexample:
  "fst (checkIn demo_env 1000 demo_vid demo_eid demo_req far_body demo_db)
     = Json 400 (ErrorBody ''Accuracy must be <= 5 meters'')
   \<and> visits demo_db = []
   \<and> map v_vendor_name
        (visits (snd (checkIn demo_env 1000 demo_vid demo_eid demo_req far_body demo_db)))
       = [''Riverside Market'']
   \<and> visit_events (snd (checkIn demo_env 1000 demo_vid demo_eid demo_req far_body demo_db))
       = []"
  by (simp add: far_body_def model_defs demo_defs Number_toString_5)

section \<open>Check-out: one CHECK_OUT row per visit\<close>

lemma distinct_map_filter_le_1:
  "distinct (map f xs) \<Longrightarrow> length (filter (\<lambda>x. f x = k) xs) \<le> 1"
proof (induction xs)
  case Nil
  show ?case by simp
next
  case (Cons x xs)
  show ?case
  proof (cases "f x = k")
    case True
    with Cons.prems have "filter (\<lambda>y. f y = k) xs = []"
      by (auto simp: filter_empty_conv image_iff)
    with True show ?thesis by simp
  next
    case False
    with Cons show ?thesis by simp
  qed
qed

lemma find_Some_id: "find (\<lambda>v. f v = k) xs = Some v \<Longrightarrow> f v = k"
  by (auto simp: find_Some_iff)

lemma closed_db_eval:
  "visits closed_db
     = [\<lparr>v_id = demo_vid, v_vendor_name = ''Riverside Market'', v_created_at = 1000\<rparr>]"
  "map (\<lambda>e. (e_id e, e_visit_id e, e_event_type e)) (visit_events closed_db)
     = [(demo_eid, demo_vid, CHECK_IN), (demo_eid2, demo_vid, CHECK_OUT)]"
  "server_challenges closed_db
     = [demo_challenge\<lparr>c_used_at := Some 1000\<rparr>, demo_challenge2\<lparr>c_used_at := Some 2000\<rparr>,
        demo_challenge3]"
  by (simp_all add: closed_db_def open_db_def model_defs demo_defs num_eval)

lemma demo_spellings:
  "uuid_in demo_env demo_vid_text = Some demo_vid"
  "uuid_in demo_env demo_vid_upper = Some demo_vid"
  "uuid_in demo_env demo_vid2_text = Some demo_vid2"
  "uuid_in demo_env not_a_uuid = None"
  by (simp_all add: demo_defs char_of_def bit_iff_odd)

text \<open>Claim C5, as amended. At most one CHECK_OUT row is ever stored for a visit.
  A check-out whose path parameter is a UUID, in any spelling PostgreSQL reads, that no
  stored visit has is answered 404 "Visit not found" and changes nothing. A check-out
  for a visit that already has its CHECK_OUT row stores no event and is answered with an
  error: when the submission passes every check of the handler and of \<open>insertEvent\<close>,
  its challenge is consumed and the unique index rejects the insert, which the server
  reports as 500 "Failed to save event".\<close>

theorem checkOut_once:
  "(EventSchema_safeParse en b \<and> eventType b = CHECK_OUT \<and> uuid_in en visitId = Some vid
      \<and> vid \<notin> set (map v_id (visits d))
    \<longrightarrow> checkOut en now visitId eventId r b d = (Json 404 (ErrorBody ''Visit not found''), d))
   \<and> (uuid_in en visitId = Some vid \<and> visit_closed vid d
    \<longrightarrow> visit_events (snd (checkOut en now visitId eventId r b d)) = visit_events d
        \<and> visits (snd (checkOut en now visitId eventId r b d)) = visits d
        \<and> (\<exists>st err. fst (checkOut en now visitId eventId r b d) = Json st (ErrorBody err)))
   \<and> (uuid_in en visitId = Some vid \<and> visit_closed vid d
      \<and> EventSchema_safeParse en b \<and> eventType b = CHECK_OUT
      \<and> (\<exists>v. find (\<lambda>v. v_id v = vid) (visits d) = Some v
              \<and> toLowerCase en (trim en (vendorName b))
                   = toLowerCase en (trim en (v_vendor_name v)))
      \<and> accuracyMeters b \<le> ACCURACY_THRESHOLD_METERS en \<and> photoExists en (photoUrl b)
      \<and> fst (verifyChallenge now (challengeId b) (challengeNonce b) d) = Inr ()
      \<and> verifySignature en (devicePublicKey b) (deviceSignature b)
            (buildSigningPayload (String_num en) b) = Inr True
    \<longrightarrow> checkOut en now visitId eventId r b d
          = (Json 500 (ErrorBody ''Failed to save event''),
             UPDATE_challenge_used now (challengeId b) d))
   \<and> length (filter (\<lambda>e. (e_visit_id e, e_event_type e) = (vid, CHECK_OUT))
               (visit_events (serve en qs empty_db))) \<le> 1"
proof (intro conjI)
  show "EventSchema_safeParse en b \<and> eventType b = CHECK_OUT \<and> uuid_in en visitId = Some vid
      \<and> vid \<notin> set (map v_id (visits d))
    \<longrightarrow> checkOut en now visitId eventId r b d = (Json 404 (ErrorBody ''Visit not found''), d)"
    by (simp add: checkOut_def SELECT_visit_by_id_def find_None_ids [THEN iffD2])
next
  show "uuid_in en visitId = Some vid \<and> visit_closed vid d
    \<longrightarrow> visit_events (snd (checkOut en now visitId eventId r b d)) = visit_events d
        \<and> visits (snd (checkOut en now visitId eventId r b d)) = visits d
        \<and> (\<exists>st err. fst (checkOut en now visitId eventId r b d) = Json st (ErrorBody err))"
  proof
    assume c: "uuid_in en visitId = Some vid \<and> visit_closed vid d"
    then have s: "SELECT_visit_by_id en visitId d = Inr (find (\<lambda>v. v_id v = vid) (visits d))"
      by (simp add: SELECT_visit_by_id_def)
    obtain res d2 where ie: "insertEvent en now eventId vid b r d = (res, d2)"
      by (cases "insertEvent en now eventId vid b r d")
    show "visit_events (snd (checkOut en now visitId eventId r b d)) = visit_events d
        \<and> visits (snd (checkOut en now visitId eventId r b d)) = visits d
        \<and> (\<exists>st err. fst (checkOut en now visitId eventId r b d) = Json st (ErrorBody err))"
    proof (cases "EventSchema_safeParse en b \<and> eventType b = CHECK_OUT")
      case False
      then show ?thesis by (auto simp: checkOut_def)
    next
      case True
      with c insertEvent_outcome [of en now eventId vid b r d] ie
      obtain st err where f: "res = Fail st err" "visits d2 = visits d"
        "visit_events d2 = visit_events d"
        by (auto simp: visit_closed_def)
      show ?thesis
      proof (cases "find (\<lambda>v. v_id v = vid) (visits d)")
        case None
        with s True show ?thesis by (simp add: checkOut_def)
      next
        case (Some v)
        then have "v_id v = vid" by (rule find_Some_id)
        with Some s ie f True show ?thesis
          by (simp add: checkOut_def Let_def insert_response_def)
      qed
    qed
  qed
next
  show "uuid_in en visitId = Some vid \<and> visit_closed vid d
      \<and> EventSchema_safeParse en b \<and> eventType b = CHECK_OUT
      \<and> (\<exists>v. find (\<lambda>v. v_id v = vid) (visits d) = Some v
              \<and> toLowerCase en (trim en (vendorName b))
                   = toLowerCase en (trim en (v_vendor_name v)))
      \<and> accuracyMeters b \<le> ACCURACY_THRESHOLD_METERS en \<and> photoExists en (photoUrl b)
      \<and> fst (verifyChallenge now (challengeId b) (challengeNonce b) d) = Inr ()
      \<and> verifySignature en (devicePublicKey b) (deviceSignature b)
            (buildSigningPayload (String_num en) b) = Inr True
    \<longrightarrow> checkOut en now visitId eventId r b d
          = (Json 500 (ErrorBody ''Failed to save event''),
             UPDATE_challenge_used now (challengeId b) d)"
  proof
    let ?d1 = "UPDATE_challenge_used now (challengeId b) d"
    assume h: "uuid_in en visitId = Some vid \<and> visit_closed vid d
      \<and> EventSchema_safeParse en b \<and> eventType b = CHECK_OUT
      \<and> (\<exists>v. find (\<lambda>v. v_id v = vid) (visits d) = Some v
              \<and> toLowerCase en (trim en (vendorName b))
                   = toLowerCase en (trim en (v_vendor_name v)))
      \<and> accuracyMeters b \<le> ACCURACY_THRESHOLD_METERS en \<and> photoExists en (photoUrl b)
      \<and> fst (verifyChallenge now (challengeId b) (challengeNonce b) d) = Inr ()
      \<and> verifySignature en (devicePublicKey b) (deviceSignature b)
            (buildSigningPayload (String_num en) b) = Inr True"
    then obtain v where v: "find (\<lambda>v. v_id v = vid) (visits d) = Some v"
      "toLowerCase en (trim en (vendorName b)) = toLowerCase en (trim en (v_vendor_name v))"
      by blast
    from v(1) have vid: "v_id v = vid" by (rule find_Some_id)
    from h v(1) have s: "SELECT_visit_by_id en visitId d = Inr (Some v)"
      by (simp add: SELECT_visit_by_id_def)
    from h verifyChallenge_cases [of now "challengeId b" "challengeNonce b" d]
    have vc: "verifyChallenge now (challengeId b) (challengeNonce b) d = (Inr (), ?d1)"
      by auto
    from h have "INSERT_visit_events en (make_event_row en now eventId vid b r) ?d1 = Inl Thrown"
      by (simp add: INSERT_visit_events_def make_event_row_def visit_closed_def
            tables_UPDATE_challenge_used)
    with h vc have "insertEvent en now eventId vid b r d
                      = (Fail 500 ''Failed to save event'', ?d1)"
      by (simp add: insertEvent_def)
    with h s v(2) vid show "checkOut en now visitId eventId r b d
          = (Json 500 (ErrorBody ''Failed to save event''), ?d1)"
      by (simp add: checkOut_def Let_def insert_response_def)
  qed
next
  have "events_unique (serve en qs empty_db)"
    using invariants_serve [OF invariants_empty] by blast
  then show "length (filter (\<lambda>e. (e_visit_id e, e_event_type e) = (vid, CHECK_OUT))
               (visit_events (serve en qs empty_db))) \<le> 1"
    unfolding events_unique_def by (rule distinct_map_filter_le_1)
qed

theorem checkOut_once_witness:
  "checkOut demo_env 3000 demo_vid2_text demo_eid3 demo_req demo_out_body2 closed_db
     = (Json 404 (ErrorBody ''Visit not found''), closed_db)
   \<and> visit_closed demo_vid closed_db
   \<and> uuid_in demo_env demo_vid_upper = Some demo_vid
   \<and> checkOut demo_env 3000 demo_vid_upper demo_eid3 demo_req demo_out_body2 closed_db
       = (Json 500 (ErrorBody ''Failed to save event''),
          UPDATE_challenge_used 3000 demo_cid3 closed_db)
   \<and> visit_events (snd (checkOut demo_env 3000 demo_vid_upper demo_eid3 demo_req demo_out_body2
                           closed_db))
       = visit_events closed_db"
proof -
  have c: "visit_closed demo_vid closed_db"
    using closed_db_eval(2) by (auto simp: visit_closed_def image_iff dest: arg_cong [where f = set])
  have a: "EventSchema_safeParse demo_env demo_out_body2 \<and> eventType demo_out_body2 = CHECK_OUT"
    by (simp add: demo_out_body2_def model_defs demo_defs)
  have w: "uuid_in demo_env demo_vid_upper = Some demo_vid"
    and w2: "uuid_in demo_env demo_vid2_text = Some demo_vid2"
    by (simp_all add: demo_spellings)
  have n: "demo_vid2 \<notin> set (map v_id (visits closed_db))"
    by (simp add: closed_db_eval demo_defs)
  have f: "\<exists>v. find (\<lambda>v. v_id v = demo_vid) (visits closed_db) = Some v
              \<and> toLowerCase demo_env (trim demo_env (vendorName demo_out_body2))
                   = toLowerCase demo_env (trim demo_env (v_vendor_name v))"
    by (simp add: closed_db_eval demo_out_body2_def model_defs demo_defs)
  have g: "accuracyMeters demo_out_body2 \<le> ACCURACY_THRESHOLD_METERS demo_env
           \<and> photoExists demo_env (photoUrl demo_out_body2)"
    by (simp add: demo_out_body2_def model_defs demo_defs)
  have v: "fst (verifyChallenge 3000 (challengeId demo_out_body2)
                  (challengeNonce demo_out_body2) closed_db) = Inr ()"
    by (simp add: verifyChallenge_def challenge_checks_def SELECT_challenge_def
          closed_db_eval demo_out_body2_def demo_defs)
  have s: "verifySignature demo_env (devicePublicKey demo_out_body2)
             (deviceSignature demo_out_body2)
             (buildSigningPayload (String_num demo_env) demo_out_body2) = Inr True"
    by (simp add: demo_out_body2_def model_defs demo_defs)
  have i: "challengeId demo_out_body2 = demo_cid3"
    by (simp add: demo_out_body2_def demo_defs)
  note t = checkOut_once [of demo_env demo_out_body2 _ _ closed_db 3000 demo_eid3 demo_req]
  from t [of demo_vid2_text demo_vid2] a n w2
  have 1: "checkOut demo_env 3000 demo_vid2_text demo_eid3 demo_req demo_out_body2 closed_db
     = (Json 404 (ErrorBody ''Visit not found''), closed_db)"
    by blast
  from t [of demo_vid_upper demo_vid] c a f g v s w
  have 2: "checkOut demo_env 3000 demo_vid_upper demo_eid3 demo_req demo_out_body2 closed_db
       = (Json 500 (ErrorBody ''Failed to save event''),
          UPDATE_challenge_used 3000 (challengeId demo_out_body2) closed_db)"
    by blast
  from t [of demo_vid_upper demo_vid] c w
  have 3: "visit_events (snd (checkOut demo_env 3000 demo_vid_upper demo_eid3 demo_req
                           demo_out_body2 closed_db))
       = visit_events closed_db"
    by blast
  from 1 2 3 c i w show ?thesis by simp
qed

text \<open>A second check-out of the closed visit, with a fresh challenge and a valid
  signature, is answered with the same 500 "Failed to save event" that an unrelated
  storage failure gets (here: a check-out of the still open visit whose event id
  collides with a stored one). And a path parameter that is no UUID names no visit,
  yet the handler answers nothing: the lookup throws outside any \<open>try\<close>.\<close>

theorem checkOut_twice_counterexample:
  "visit_closed demo_vid closed_db
   \<and> fst (checkOut demo_env 3000 demo_vid_text demo_eid3 demo_req demo_out_body2 closed_db)
       = Json 500 (ErrorBody ''Failed to save event'')
   \<and> \<not> visit_closed demo_vid open_db
   \<and> fst (checkOut demo_env 3000 demo_vid_text demo_eid demo_req demo_out_body2 open_db)
       = Json 500 (ErrorBody ''Failed to save event'')
   \<and> fst (checkOut demo_env 3000 not_a_uuid demo_eid3 demo_req demo_out_body2 closed_db)
       = NoResponse Thrown"
  by (simp add: visit_closed_def closed_db_def open_db_def demo_out_body2_def model_defs
        demo_defs num_eval)

section \<open>Check-in: one visit per vendor name\<close>

text \<open>The handler at the grain of its \<open>await\<close>s is the handler: from its start,
  three resumptions reach the answer and the database of \<open>checkIn\<close>.\<close>

lemma checkIn_step_by_step:
  assumes "checkIn_step en now visitId eventId r b (checkIn_begin en b) d = (pc1, d1)"
    and "checkIn_step en now visitId eventId r b pc1 d1 = (pc2, d2)"
    and "checkIn_step en now visitId eventId r b pc2 d2 = (pc3, d3)"
  shows "pc3 = Answered (fst (checkIn en now visitId eventId r b d))
         \<and> d3 = snd (checkIn en now visitId eventId r b d)"
  using assms
  by (auto simp: checkIn_def checkIn_begin_def checkIn_step_def
        split: if_splits sum.splits option.splits prod.splits)

lemma find_Some_ex:
  "(\<exists>v. find P xs = Some v) \<longleftrightarrow> (\<exists>v \<in> set xs. P v)"
  by (induction xs) auto

text \<open>Claim C6, as amended. Over every sequence of requests, no two rows of
  \<open>visits\<close> have the same lower-cased vendor name. A check-in whose vendor name the
  database reads and finds equal to a stored vendor name up to letter case
  (\<open>LOWER(vendor_name) = LOWER($1)\<close>) is answered 409 "Vendor name already exists" and
  changes nothing. When the database rejects the INSERT into \<open>visits\<close>, for the unique
  index on the vendor name or for any other reason, the handler answers 500 "Failed to
  create visit" and changes nothing: so it is in the handler run as a whole after a
  pre-check that found no row, and at the INSERT of a handler that overlaps with
  another.\<close>

theorem vendor_name_unique:
  "vendor_unique en (serve en qs empty_db)
   \<and> (EventSchema_safeParse en b \<and> eventType b = CHECK_IN \<and> text_in en (vendorName b)
      \<and> (\<exists>v \<in> set (visits d). LOWER en (v_vendor_name v) = LOWER en (vendorName b))
    \<longrightarrow> checkIn en now visitId eventId r b d
          = (Json 409 (ErrorBody ''Vendor name already exists''), d))
   \<and> (EventSchema_safeParse en b \<and> eventType b = CHECK_IN
      \<and> SELECT_visit_by_vendor en (vendorName b) d = Inr None
      \<and> INSERT_visits en
           \<lparr>v_id = visitId, v_vendor_name = trim en (vendorName b), v_created_at = now\<rparr> d
          = Inl Thrown
    \<longrightarrow> checkIn en now visitId eventId r b d
          = (Json 500 (ErrorBody ''Failed to create visit''), d))
   \<and> (INSERT_visits en
           \<lparr>v_id = visitId, v_vendor_name = trim en (vendorName b), v_created_at = now\<rparr> d
          = Inl Thrown
    \<longrightarrow> checkIn_step en now visitId eventId r b AwaitInsertVisit d
          = (Answered (Json 500 (ErrorBody ''Failed to create visit'')), d))"
proof (intro conjI)
  show "vendor_unique en (serve en qs empty_db)"
    using invariants_serve [OF invariants_empty] by blast
next
  show "EventSchema_safeParse en b \<and> eventType b = CHECK_IN \<and> text_in en (vendorName b)
      \<and> (\<exists>v \<in> set (visits d). LOWER en (v_vendor_name v) = LOWER en (vendorName b))
    \<longrightarrow> checkIn en now visitId eventId r b d
          = (Json 409 (ErrorBody ''Vendor name already exists''), d)"
  proof
    assume h: "EventSchema_safeParse en b \<and> eventType b = CHECK_IN \<and> text_in en (vendorName b)
      \<and> (\<exists>v \<in> set (visits d). LOWER en (v_vendor_name v) = LOWER en (vendorName b))"
    then have "\<exists>v. find (\<lambda>v. LOWER en (v_vendor_name v) = LOWER en (vendorName b)) (visits d)
                 = Some v"
      by (simp add: find_Some_ex)
    then obtain v where "SELECT_visit_by_vendor en (vendorName b) d = Inr (Some v)"
      using h by (auto simp: SELECT_visit_by_vendor_def)
    with h show "checkIn en now visitId eventId r b d
          = (Json 409 (ErrorBody ''Vendor name already exists''), d)"
      by (simp add: checkIn_def)
  qed
next
  show "EventSchema_safeParse en b \<and> eventType b = CHECK_IN
      \<and> SELECT_visit_by_vendor en (vendorName b) d = Inr None
      \<and> INSERT_visits en
           \<lparr>v_id = visitId, v_vendor_name = trim en (vendorName b), v_created_at = now\<rparr> d
          = Inl Thrown
    \<longrightarrow> checkIn en now visitId eventId r b d
          = (Json 500 (ErrorBody ''Failed to create visit''), d)"
    by (simp add: checkIn_def)
next
  show "INSERT_visits en
           \<lparr>v_id = visitId, v_vendor_name = trim en (vendorName b), v_created_at = now\<rparr> d
          = Inl Thrown
    \<longrightarrow> checkIn_step en now visitId eventId r b AwaitInsertVisit d
          = (Answered (Json 500 (ErrorBody ''Failed to create visit'')), d)"
    by (simp add: checkIn_step_def)
qed

theorem vendor_name_unique_witness:
  "vendor_unique demo_env
     (serve demo_env
        [POST_check_in 1000 demo_vid demo_eid demo_req demo_body,
         POST_check_in 2000 demo_vid2 demo_eid2 demo_req shouting_body] empty_db)
   \<and> checkIn demo_env 2000 demo_vid2 demo_eid2 demo_req shouting_body open_db
       = (Json 409 (ErrorBody ''Vendor name already exists''), open_db)
   \<and> checkIn demo_env 2000 demo_vid demo_eid2 demo_req elsewhere_body open_db
       = (Json 500 (ErrorBody ''Failed to create visit''), open_db)
   \<and> checkIn_step demo_env 2000 demo_vid2 demo_eid2 demo_req shouting_body AwaitInsertVisit
        open_db
       = (Answered (Json 500 (ErrorBody ''Failed to create visit'')), open_db)"
proof -
  have a: "EventSchema_safeParse demo_env shouting_body \<and> eventType shouting_body = CHECK_IN
      \<and> text_in demo_env (vendorName shouting_body)
      \<and> (\<exists>v \<in> set (visits open_db).
             LOWER demo_env (v_vendor_name v) = LOWER demo_env (vendorName shouting_body))"
    by (simp add: open_db_eval shouting_body_def model_defs demo_defs)
  have b: "EventSchema_safeParse demo_env elsewhere_body \<and> eventType elsewhere_body = CHECK_IN
      \<and> SELECT_visit_by_vendor demo_env (vendorName elsewhere_body) open_db = Inr None
      \<and> INSERT_visits demo_env
           \<lparr>v_id = demo_vid, v_vendor_name = trim demo_env (vendorName elsewhere_body),
              v_created_at = 2000\<rparr> open_db
          = Inl Thrown"
    by (simp add: open_db_eval elsewhere_body_def model_defs demo_defs)
  have c: "INSERT_visits demo_env
           \<lparr>v_id = demo_vid2, v_vendor_name = trim demo_env (vendorName shouting_body),
              v_created_at = 2000\<rparr> open_db
          = Inl Thrown"
    by (simp add: open_db_eval shouting_body_def model_defs demo_defs)
  from vendor_name_unique
         [of demo_env "[POST_check_in 1000 demo_vid demo_eid demo_req demo_body,
                        POST_check_in 2000 demo_vid2 demo_eid2 demo_req shouting_body]"
             shouting_body open_db 2000 demo_vid2 demo_eid2 demo_req] a c
  have 1: "vendor_unique demo_env
     (serve demo_env
        [POST_check_in 1000 demo_vid demo_eid demo_req demo_body,
         POST_check_in 2000 demo_vid2 demo_eid2 demo_req shouting_body] empty_db)
   \<and> checkIn demo_env 2000 demo_vid2 demo_eid2 demo_req shouting_body open_db
       = (Json 409 (ErrorBody ''Vendor name already exists''), open_db)
   \<and> checkIn_step demo_env 2000 demo_vid2 demo_eid2 demo_req shouting_body AwaitInsertVisit
        open_db
       = (Answered (Json 500 (ErrorBody ''Failed to create visit'')), open_db)"
    by blast
  from vendor_name_unique [of demo_env "[]" elsewhere_body open_db 2000 demo_vid demo_eid2 demo_req] b
  have 2: "checkIn demo_env 2000 demo_vid demo_eid2 demo_req elsewhere_body open_db
       = (Json 500 (ErrorBody ''Failed to create visit''), open_db)"
    by blast
  from 1 2 show ?thesis by blast
qed

text \<open>Two check-ins for the same vendor, up to letter case, overlap: each runs its
  pre-check before the other inserts, so both find no row. The first inserts its visit;
  the INSERT of the second, with a fresh visit id, violates the unique index on the
  vendor name, and its answer is the 500, not the 409. Both submitted names are already
  trimmed.\<close>

theorem vendor_insert_violation_counterexample:
  "ci_at first_call = AwaitPrecheck \<and> ci_at second_call = AwaitPrecheck
   \<and> visits demo_db = []
   \<and> trim demo_env (vendorName (ci_body first_call)) = vendorName (ci_body first_call)
   \<and> trim demo_env (vendorName (ci_body second_call)) = vendorName (ci_body second_call)
   \<and> LOWER demo_env (vendorName (ci_body second_call))
       = LOWER demo_env (vendorName (ci_body first_call))
   \<and> ci_visitId second_call \<noteq> ci_visitId first_call
   \<and> ci_at (fst (run_checkins demo_env [False, True, False, True, False]
                   first_call second_call demo_db))
       = Answered (Json 201 (CheckInBody demo_vid demo_eid))
   \<and> ci_at (fst (snd (run_checkins demo_env [False, True, False, True, False]
                        first_call second_call demo_db)))
       = Answered (Json 500 (ErrorBody ''Failed to create visit''))
   \<and> ci_at (fst (snd (run_checkins demo_env [False, True, False, True, False]
                        first_call second_call demo_db)))
       \<noteq> Answered (Json 409 (ErrorBody ''Vendor name already exists''))
   \<and> map v_vendor_name
        (visits (snd (snd (run_checkins demo_env [False, True, False, True, False]
                             first_call second_call demo_db))))
       = [''Riverside Market'']"
  by (simp add: first_call_def second_call_def shouting_body_def model_defs demo_defs num_eval)

section \<open>String on numbers prints the number itself\<close>

lemma digit_char_code: "d < 10 \<Longrightarrow> of_char (digit_char d) = 48 + d"
proof -
  assume "d < 10"
  then have "d = 0 \<or> d = 1 \<or> d = 2 \<or> d = 3 \<or> d = 4 \<or> d = 5 \<or> d = 6 \<or> d = 7 \<or> d = 8 \<or> d = 9"
    by arith
  then show ?thesis
    by (elim disjE) (simp_all add: digit_char_def)
qed

lemma digit_char_digit: "digit_char d \<in> set ''0123456789''"
  unfolding digit_char_def by (rule nth_mem) simp

lemma nat_digits_chars: "set (nat_digits n) \<subseteq> set ''0123456789''"
proof (induction n rule: nat_digits.induct)
  case (1 n)
  show ?case
  proof (cases "n < 10")
    case True
    then have "nat_digits n = [digit_char n]" by (simp add: nat_digits.simps [of n])
    with digit_char_digit [of n] show ?thesis by simp
  next
    case False
    then have "nat_digits n = nat_digits (n div 10) @ [digit_char (n mod 10)]"
      by (simp add: nat_digits.simps [of n])
    with 1 False digit_char_digit [of "n mod 10"] show ?thesis by simp
  qed
qed

lemma nat_digits_value: "foldl (\<lambda>a c. 10 * a + (of_char c - 48)) 0 (nat_digits n) = n"
proof (induction n rule: nat_digits.induct)
  case (1 n)
  show ?case
  proof (cases "n < 10")
    case True
    then show ?thesis
      by (simp add: nat_digits.simps [of n] digit_char_code)
  next
    case False
    then have "nat_digits n = nat_digits (n div 10) @ [digit_char (n mod 10)]"
      by (simp add: nat_digits.simps [of n])
    with 1 False show ?thesis
      by (simp add: digit_char_code)
  qed
qed

lemma frac_places_whole:
  "\<exists>f \<le> fuel. is_whole (x * 10 ^ f) \<Longrightarrow> is_whole (x * 10 ^ frac_places fuel x)"
proof (induction fuel arbitrary: x)
  case 0
  then show ?case by (simp add: frac_places.simps [of 0 x])
next
  case (Suc fuel)
  show ?case
  proof (cases "is_whole x")
    case True
    then show ?thesis by (simp add: frac_places.simps [of "Suc fuel" x])
  next
    case False
    from Suc.prems obtain f where f: "f \<le> Suc fuel" "is_whole (x * 10 ^ f)" by blast
    with False have "f \<noteq> 0" by (cases f) auto
    then obtain g where g: "f = Suc g" by (cases f) auto
    with f have "\<exists>h \<le> fuel. is_whole (x * 10 * 10 ^ h)"
      by (auto simp: mult.assoc intro!: exI [of _ g])
    then have "is_whole (x * 10 * 10 ^ frac_places fuel (x * 10))"
      by (rule Suc.IH)
    with False show ?thesis
      by (simp add: frac_places.simps [of "Suc fuel" x] mult.assoc)
  qed
qed

lemma trailing_zeros_split:
  "m = (m div 10 ^ trailing_zeros m) * 10 ^ trailing_zeros m"
proof (induction m rule: trailing_zeros.induct)
  case (1 m)
  show ?case
  proof (cases "m = 0 \<or> m mod 10 \<noteq> 0")
    case True
    then show ?thesis by (simp add: trailing_zeros.simps [of m])
  next
    case False
    then have tz: "trailing_zeros m = Suc (trailing_zeros (m div 10))"
      by (simp add: trailing_zeros.simps [of m])
    from False have m: "m = m div 10 * 10" by auto
    from 1 False
    have "m div 10 = (m div 10 div 10 ^ trailing_zeros (m div 10)) * 10 ^ trailing_zeros (m div 10)"
      by simp
    with m tz show ?thesis
      by (metis div_mult2_eq mult.assoc mult.commute power_Suc)
  qed
qed

lemma trailing_zeros_stripped:
  "0 < m \<Longrightarrow> \<not> 10 dvd (m div 10 ^ trailing_zeros m)"
proof (induction m rule: trailing_zeros.induct)
  case (1 m)
  show ?case
  proof (cases "m mod 10 \<noteq> 0")
    case True
    with 1 show ?thesis by (simp add: trailing_zeros.simps [of m] dvd_eq_mod_eq_0)
  next
    case False
    with 1 have tz: "trailing_zeros m = Suc (trailing_zeros (m div 10))"
      by (simp add: trailing_zeros.simps [of m])
    from False "1.prems" have "0 < m div 10" by auto
    with 1 False have "\<not> 10 dvd (m div 10 div 10 ^ trailing_zeros (m div 10))"
      by simp
    with tz show ?thesis
      by (simp add: div_mult2_eq)
  qed
qed


lemma positive_exact:
  assumes pos: "0 < x" and dec: "\<exists>f \<le> decimal_places_bound. is_whole (x * 10 ^ f)"
  shows "0 < significand x \<and> \<not> 10 dvd significand x
         \<and> x = real (significand x) * 10 powi exponent10 x"
proof -
  define f where "f = frac_places decimal_places_bound x"
  define m where "m = nat \<lfloor>x * 10 ^ f\<rfloor>"
  define z where "z = trailing_zeros m"
  have "is_whole (x * 10 ^ f)"
    unfolding f_def using dec by (rule frac_places_whole)
  then have w: "of_int \<lfloor>x * 10 ^ f\<rfloor> = x * 10 ^ f"
    by (simp add: is_whole_def)
  from pos have y: "0 < x * 10 ^ f" by simp
  with w have "0 < \<lfloor>x * 10 ^ f\<rfloor>"
    by (metis of_int_0_less_iff)
  then have mpos: "0 < m" and "int m = \<lfloor>x * 10 ^ f\<rfloor>"
    by (simp_all add: m_def)
  with w have rm: "real m = x * 10 ^ f"
    by (metis of_int_of_nat_eq)
  have split: "m = (m div 10 ^ z) * 10 ^ z"
    unfolding z_def by (rule trailing_zeros_split)
  have s: "significand x = m div 10 ^ z"
    by (simp add: significand_def Let_def f_def m_def z_def)
  have e: "exponent10 x = int z - int f"
    by (simp add: exponent10_def Let_def f_def m_def z_def)
  from split mpos have spos: "0 < m div 10 ^ z"
    by (metis gr0I mult_zero_left less_numeral_extra(3))
  have nd: "\<not> 10 dvd (m div 10 ^ z)"
    unfolding z_def using mpos by (rule trailing_zeros_stripped)
  from split have "real m = real (m div 10 ^ z) * 10 ^ z"
    by (metis of_nat_mult of_nat_power of_nat_numeral)
  with rm have "x * 10 ^ f = real (m div 10 ^ z) * 10 ^ z" by simp
  then have "x = real (m div 10 ^ z) * 10 ^ z / 10 ^ f"
    by (simp add: field_simps)
  also have "\<dots> = real (m div 10 ^ z) * 10 powi (int z - int f)"
    by (simp add: power_int_diff)
  finally have fin: "x = real (m div 10 ^ z) * 10 powi (int z - int f)" .
  have "x = real (significand x) * 10 powi exponent10 x"
    unfolding s e by (rule fin)
  with spos nd s show ?thesis by simp
qed

lemma place_point_chars:
  assumes ds: "set ds \<subseteq> A"
    and digits: "\<And>j. set (nat_digits j) \<subseteq> A"
    and marks: "CHR ''0'' \<in> A" "CHR ''.'' \<in> A" "CHR ''e'' \<in> A" "CHR ''-'' \<in> A"
      "CHR ''+'' \<in> A"
  shows "set (place_point ds n) \<subseteq> A"
proof -
  have t: "set (take j ds) \<subseteq> A" "set (drop j ds) \<subseteq> A" for j
    using ds set_take_subset [of j ds] set_drop_subset [of j ds] by blast+
  have r: "set (replicate j (CHR ''0'')) \<subseteq> A" for j
    using marks(1) by auto
  show ?thesis
    unfolding place_point_def Let_def
    using ds t r digits marks by (simp split: if_splits)
qed

lemma nat_digits_no_bar: "CHR ''|'' \<notin> set (nat_digits j)"
  using nat_digits_chars [of j] by auto

lemma bar_free_Number_toString: "bar_free (Number_toString x)"
proof -
  have p: "set (positive_toString y) \<subseteq> - {CHR ''|''}" for y
    unfolding positive_toString_def Let_def
    by (rule place_point_chars) (simp_all add: nat_digits_no_bar)
  from p [of x] p [of "- x"] show ?thesis
    by (auto simp: Number_toString_def bar_free_def)
qed



section \<open>The text of a number denotes the number\<close>

lemma digits_value_nat_digits: "digits_value (nat_digits n) = n"
  unfolding digits_value_def by (rule nat_digits_value)

lemma digits_value_snoc:
  "digits_value (ds @ [c]) = 10 * digits_value ds + (of_char c - 48)"
  by (simp add: digits_value_def)

lemma digits_value_append_zeros:
  "digits_value (ds @ replicate m (CHR ''0'')) = digits_value ds * 10 ^ m"
proof (induction m)
  case 0
  show ?case by simp
next
  case (Suc m)
  have "ds @ replicate (Suc m) (CHR ''0'') = (ds @ replicate m (CHR ''0'')) @ [CHR ''0'']"
    by (simp add: replicate_append_same)
  with Suc show ?case
    by (simp only: digits_value_snoc) simp
qed

lemma digits_value_zeros: "digits_value (replicate m (CHR ''0'')) = 0"
  using digits_value_append_zeros [of "[]" m] by (simp add: digits_value_def)

lemma digits_value_leading_zeros:
  "digits_value (replicate m (CHR ''0'') @ ds) = digits_value ds"
  using digits_value_zeros [of m] by (simp add: digits_value_def)

lemma takeWhile_whole: "c \<notin> set x \<Longrightarrow> takeWhile (\<lambda>a. a \<noteq> c) x = x"
  by (induction x) auto

lemma dropWhile_whole: "c \<notin> set x \<Longrightarrow> dropWhile (\<lambda>a. a \<noteq> c) x = []"
  by (induction x) auto

lemma takeWhile_before: "c \<notin> set x \<Longrightarrow> takeWhile (\<lambda>a. a \<noteq> c) (x @ c # r) = x"
  by (induction x) auto

lemma dropWhile_before: "c \<notin> set x \<Longrightarrow> dropWhile (\<lambda>a. a \<noteq> c) (x @ c # r) = c # r"
  by (induction x) auto

lemma digits_no_marks:
  assumes "set ds \<subseteq> set ''0123456789''"
  shows "CHR ''e'' \<notin> set ds" "CHR ''.'' \<notin> set ds" "CHR ''-'' \<notin> set ds"
  using assms by auto

text \<open>A text without exponent part and without point; one with a point; one with
  an exponent part.\<close>

lemma unsigned_value_whole:
  assumes "CHR ''e'' \<notin> set w" and "CHR ''.'' \<notin> set w"
  shows "unsigned_value w = real (digits_value w)"
  using assms by (simp add: unsigned_value_def takeWhile_whole dropWhile_whole)

lemma unsigned_value_point:
  assumes "CHR ''e'' \<notin> set w" and "CHR ''.'' \<notin> set w" and "CHR ''e'' \<notin> set f"
  shows "unsigned_value (w @ CHR ''.'' # f)
           = real (digits_value (w @ f)) * 10 powi (- int (length f))"
proof -
  from assms have "CHR ''e'' \<notin> set (w @ CHR ''.'' # f)" by simp
  then have m: "takeWhile (\<lambda>c. c \<noteq> CHR ''e'') (w @ CHR ''.'' # f) = w @ CHR ''.'' # f"
    "dropWhile (\<lambda>c. c \<noteq> CHR ''e'') (w @ CHR ''.'' # f) = []"
    by (rule takeWhile_whole, rule dropWhile_whole)
  from assms(2) show ?thesis
    by (simp add: unsigned_value_def m takeWhile_before dropWhile_before)
qed

lemma unsigned_value_exponent:
  assumes "CHR ''e'' \<notin> set m" and "sg = CHR ''-'' \<or> sg = CHR ''+''"
  shows "unsigned_value (m @ CHR ''e'' # sg # xs)
           = real (digits_value (takeWhile (\<lambda>c. c \<noteq> CHR ''.'') m
                                  @ drop 1 (dropWhile (\<lambda>c. c \<noteq> CHR ''.'') m)))
             * 10 powi ((if sg = CHR ''-'' then - int (digits_value xs)
                         else int (digits_value xs))
                        - int (length (drop 1 (dropWhile (\<lambda>c. c \<noteq> CHR ''.'') m))))"
  using assms
  by (auto simp: unsigned_value_def takeWhile_before dropWhile_before)

lemma unsigned_value_place_point:
  assumes ds: "set ds \<subseteq> set ''0123456789''" and ne: "ds \<noteq> []"
  shows "unsigned_value (place_point ds n)
           = real (digits_value ds) * 10 powi (n - int (length ds))"
proof -
  let ?k = "int (length ds)"
  note nm = digits_no_marks [OF ds]
  have sub: "set (take j ds) \<subseteq> set ''0123456789''" "set (drop j ds) \<subseteq> set ''0123456789''"
    for j
    using ds set_take_subset [of j ds] set_drop_subset [of j ds] by blast+
  have kpos: "0 < ?k" using ne by simp
  consider (whole) "?k \<le> n" "n \<le> 21"
    | (point) "n < ?k" "0 < n" "n \<le> 21"
    | (small) "- 6 < n" "n \<le> 0"
    | (expo) "n \<le> - 6 \<or> 21 < n"
    by linarith
  then show ?thesis
  proof cases
    case whole
    then have pp: "place_point ds n = ds @ replicate (nat (n - ?k)) (CHR ''0'')"
      by (simp add: place_point_def)
    have "unsigned_value (ds @ replicate (nat (n - ?k)) (CHR ''0''))
            = real (digits_value (ds @ replicate (nat (n - ?k)) (CHR ''0'')))"
      using nm by (intro unsigned_value_whole) auto
    also have "\<dots> = real (digits_value ds) * 10 ^ nat (n - ?k)"
      by (simp add: digits_value_append_zeros)
    also have "\<dots> = real (digits_value ds) * 10 powi (n - ?k)"
      using whole by (simp add: power_int_def)
    finally show ?thesis by (simp only: pp)
  next
    case point
    then have pp: "place_point ds n = take (nat n) ds @ CHR ''.'' # drop (nat n) ds"
      by (simp add: place_point_def)
    have "unsigned_value (take (nat n) ds @ CHR ''.'' # drop (nat n) ds)
            = real (digits_value (take (nat n) ds @ drop (nat n) ds))
              * 10 powi (- int (length (drop (nat n) ds)))"
      using digits_no_marks [OF sub(1) [of "nat n"]] digits_no_marks [OF sub(2) [of "nat n"]]
      by (intro unsigned_value_point) simp_all
    also have "\<dots> = real (digits_value ds) * 10 powi (n - ?k)"
      using point by (simp add: of_nat_diff)
    finally show ?thesis by (simp only: pp)
  next
    case small
    with kpos have "\<not> ?k \<le> n" "\<not> (0 < n \<and> n \<le> 21)" by linarith+
    with small have pp: "place_point ds n
                          = [CHR ''0''] @ CHR ''.'' # (replicate (nat (- n)) (CHR ''0'') @ ds)"
      by (simp add: place_point_def Let_def)
    have "unsigned_value ([CHR ''0''] @ CHR ''.'' # (replicate (nat (- n)) (CHR ''0'') @ ds))
            = real (digits_value ([CHR ''0''] @ (replicate (nat (- n)) (CHR ''0'') @ ds)))
              * 10 powi (- int (length (replicate (nat (- n)) (CHR ''0'') @ ds)))"
      using nm by (intro unsigned_value_point) auto
    also have "[CHR ''0''] @ (replicate (nat (- n)) (CHR ''0'') @ ds)
                 = replicate (Suc (nat (- n))) (CHR ''0'') @ ds"
      by simp
    also have "digits_value (replicate (Suc (nat (- n))) (CHR ''0'') @ ds) = digits_value ds"
      by (rule digits_value_leading_zeros)
    also have "- int (length (replicate (nat (- n)) (CHR ''0'') @ ds)) = n - ?k"
      using small by simp
    finally show ?thesis by (simp only: pp)
  next
    case expo
    let ?m = "if ?k = 1 then ds else take 1 ds @ CHR ''.'' # drop 1 ds"
    let ?sgn = "if n - 1 < 0 then CHR ''-'' else CHR ''+''"
    let ?xs = "nat_digits (nat \<bar>n - 1\<bar>)"
    from expo kpos have pp: "place_point ds n = ?m @ CHR ''e'' # ?sgn # ?xs"
      by (auto simp: place_point_def)
    have me: "CHR ''e'' \<notin> set ?m"
      using nm digits_no_marks [OF sub(1) [of 1]] digits_no_marks [OF sub(2) [of 1]]
      by auto
    have ex: "(if ?sgn = CHR ''-'' then - int (digits_value ?xs) else int (digits_value ?xs))
                = n - 1"
      by (simp add: digits_value_nat_digits)
    have parts: "digits_value (takeWhile (\<lambda>c. c \<noteq> CHR ''.'') ?m
                                 @ drop 1 (dropWhile (\<lambda>c. c \<noteq> CHR ''.'') ?m))
                   = digits_value ds
                 \<and> int (length (drop 1 (dropWhile (\<lambda>c. c \<noteq> CHR ''.'') ?m))) = ?k - 1"
    proof (cases "?k = 1")
      case True
      with nm show ?thesis by (simp add: takeWhile_whole dropWhile_whole)
    next
      case False
      from ne have "1 \<le> length ds" by (cases ds) simp_all
      with False digits_no_marks(2) [OF sub(1) [of 1]] show ?thesis
        by (simp add: takeWhile_before dropWhile_before of_nat_diff)
    qed
    have "unsigned_value (?m @ CHR ''e'' # ?sgn # ?xs)
            = real (digits_value (takeWhile (\<lambda>c. c \<noteq> CHR ''.'') ?m
                                   @ drop 1 (dropWhile (\<lambda>c. c \<noteq> CHR ''.'') ?m)))
              * 10 powi ((if ?sgn = CHR ''-'' then - int (digits_value ?xs)
                          else int (digits_value ?xs))
                         - int (length (drop 1 (dropWhile (\<lambda>c. c \<noteq> CHR ''.'') ?m))))"
      using me by (intro unsigned_value_exponent) simp_all
    also have "\<dots> = real (digits_value ds) * 10 powi (n - 1 - (?k - 1))"
      by (simp only: ex parts)
    finally show ?thesis by (simp add: pp)
  qed
qed

lemma place_point_head:
  assumes ds: "set ds \<subseteq> set ''0123456789''" and ne: "ds \<noteq> []"
  shows "\<exists>c rest. place_point ds n = c # rest \<and> c \<noteq> CHR ''-''"
proof -
  obtain d rest where d: "ds = d # rest" using ne by (cases ds) auto
  with ds have "d \<noteq> CHR ''-''" by auto
  with d show ?thesis
    by (cases "nat n") (auto simp: place_point_def Let_def)
qed

lemma nat_digits_nonempty: "nat_digits n \<noteq> []"
  by (simp add: nat_digits.simps [of n])

lemma frac_places_le: "frac_places fuel x \<le> fuel"
proof (induction fuel arbitrary: x)
  case 0
  show ?case by (simp add: frac_places.simps [of 0 x])
next
  case (Suc fuel)
  from Suc [of "x * 10"] show ?case by (simp add: frac_places.simps [of "Suc fuel" x])
qed

lemma is_decimal_iff:
  "is_decimal x \<longleftrightarrow> (\<exists>f \<le> decimal_places_bound. is_whole (\<bar>x\<bar> * 10 ^ f))"
  unfolding is_decimal_def
  using frac_places_whole [of decimal_places_bound "\<bar>x\<bar>"]
    frac_places_le [of decimal_places_bound "\<bar>x\<bar>"]
  by blast

lemma is_decimal_minus: "is_decimal (- x) = is_decimal x"
  by (simp add: is_decimal_def)

lemma positive_toString_value:
  assumes "0 < x" and "is_decimal x"
  shows "unsigned_value (positive_toString x) = x"
    and "\<exists>c rest. positive_toString x = c # rest \<and> c \<noteq> CHR ''-''"
proof -
  from assms have "\<exists>f \<le> decimal_places_bound. is_whole (x * 10 ^ f)"
    by (simp add: is_decimal_iff)
  with assms(1) have x: "x = real (significand x) * 10 powi exponent10 x"
    by (simp add: positive_exact)
  have "unsigned_value (positive_toString x)
          = real (digits_value (nat_digits (significand x)))
            * 10 powi (int (length (nat_digits (significand x))) + exponent10 x
                       - int (length (nat_digits (significand x))))"
    unfolding positive_toString_def Let_def
    by (rule unsigned_value_place_point, rule nat_digits_chars, rule nat_digits_nonempty)
  also have "\<dots> = real (significand x) * 10 powi exponent10 x"
    by (simp add: digits_value_nat_digits)
  finally show "unsigned_value (positive_toString x) = x"
    using x by simp
  show "\<exists>c rest. positive_toString x = c # rest \<and> c \<noteq> CHR ''-''"
    unfolding positive_toString_def Let_def
    by (rule place_point_head, rule nat_digits_chars, rule nat_digits_nonempty)
qed

lemma decimal_value_Number_toString:
  assumes "is_decimal x"
  shows "decimal_value (Number_toString x) = x"
proof -
  consider (zero) "x = 0" | (neg) "x < 0" | (pos) "0 < x" by linarith
  then show ?thesis
  proof cases
    case zero
    then show ?thesis
      by (simp add: Number_toString_def decimal_value_def unsigned_value_def digits_value_def)
  next
    case neg
    with assms positive_toString_value(1) [of "- x"] show ?thesis
      by (simp add: Number_toString_def decimal_value_def is_decimal_minus)
  next
    case pos
    with assms positive_toString_value [of x]
    obtain c rest where v: "unsigned_value (positive_toString x) = x"
      and h: "positive_toString x = c # rest" "c \<noteq> CHR ''-''"
      by blast
    from pos have "decimal_value (Number_toString x) = decimal_value (positive_toString x)"
      by (simp add: Number_toString_def)
    also from h have "\<dots> = unsigned_value (positive_toString x)"
      by (simp add: decimal_value_def)
    finally show ?thesis using v by simp
  qed
qed

lemma Number_toString_inj:
  assumes "is_decimal x" and "is_decimal y" and "Number_toString x = Number_toString y"
  shows "x = y"
proof -
  from assms(1) have "x = decimal_value (Number_toString x)"
    by (simp only: decimal_value_Number_toString)
  also from assms(3) have "\<dots> = decimal_value (Number_toString y)"
    by (simp only:)
  also from assms(2) have "\<dots> = y"
    by (simp only: decimal_value_Number_toString)
  finally show ?thesis .
qed


text \<open>Claim C4. \<open>buildSigningPayload\<close> is exactly the eight fields in the order
  challenge nonce, event type (\<open>CHECK_IN\<close> or \<open>CHECK_OUT\<close>), vendor name as submitted,
  \<open>String\<close> of latitude, of longitude and of accuracy, capture timestamp as submitted,
  photo digest, separated by the single character \<open>|\<close>, with nothing before, after or
  in between. \<open>String\<close> prints a number exactly: the text it prints denotes the number
  itself. For a positive decimal \<open>x\<close> the digits printed are those of the integer \<open>s\<close>,
  not divisible by ten, with \<open>x = s \<times> 10^e\<close>, the point or the exponent placed by
  ECMAScript's rules; the digits read back as \<open>s\<close>; a negative number is \<open>-\<close> and the
  text of its absolute value; zero is \<open>0\<close>. The examples cover each notation, and the
  last line is the payload of a check-in for Riverside Market at latitude 37, longitude
  -122 and accuracy 8.\<close>

theorem buildSigningPayload_layout:
  "buildSigningPayload Number_toString p =
     challengeNonce p @ ''|''
       @ (case eventType p of CHECK_IN \<Rightarrow> ''CHECK_IN'' | CHECK_OUT \<Rightarrow> ''CHECK_OUT'') @ ''|''
       @ vendorName p @ ''|''
       @ Number_toString (latitude p) @ ''|'' @ Number_toString (longitude p) @ ''|''
       @ Number_toString (accuracyMeters p) @ ''|'' @ capturedAt p @ ''|'' @ photoSha256 p
   \<and> (\<forall>x. is_decimal x \<longrightarrow> decimal_value (Number_toString x) = x)
   \<and> (\<forall>x. 0 < x \<and> is_decimal x \<longrightarrow>
          0 < significand x \<and> \<not> 10 dvd significand x
          \<and> x = real (significand x) * 10 powi exponent10 x
          \<and> Number_toString x
              = place_point (nat_digits (significand x))
                  (int (length (nat_digits (significand x))) + exponent10 x)
          \<and> Number_toString (- x) = ''-'' @ Number_toString x)
   \<and> (\<forall>n. digits_value (nat_digits n) = n)
   \<and> Number_toString 0 = ''0''
   \<and> Number_toString 37 = ''37''
   \<and> Number_toString (- 122) = ''-122''
   \<and> Number_toString 8 = ''8''
   \<and> Number_toString 100000 = ''100000''
   \<and> Number_toString 37.7749 = ''37.7749''
   \<and> Number_toString (- 122.4194) = ''-122.4194''
   \<and> Number_toString 0.5 = ''0.5''
   \<and> Number_toString 0.000001 = ''0.000001''
   \<and> Number_toString 0.0000001 = ''1e-7''
   \<and> Number_toString 0.00000015 = ''1.5e-7''
   \<and> Number_toString 1000000000000000000000 = ''1e+21''
   \<and> buildSigningPayload Number_toString scenario_body
       = ''abc123|CHECK_IN|Riverside Market|37|-122|8|2024-01-01T00:00:00Z|aaaaaaaaaaaaaaaaaaaaaaaaaaaaaaaaaaaaaaaaaaaaaaaaaaaaaaaaaaaaaaaa''"
proof (intro conjI allI impI)
  show "buildSigningPayload Number_toString p =
     challengeNonce p @ ''|''
       @ (case eventType p of CHECK_IN \<Rightarrow> ''CHECK_IN'' | CHECK_OUT \<Rightarrow> ''CHECK_OUT'') @ ''|''
       @ vendorName p @ ''|''
       @ Number_toString (latitude p) @ ''|'' @ Number_toString (longitude p) @ ''|''
       @ Number_toString (accuracyMeters p) @ ''|'' @ capturedAt p @ ''|'' @ photoSha256 p"
    by (simp add: buildSigningPayload_def signing_fields_def event_type_str_def)
next
  fix x :: real
  assume "is_decimal x"
  then show "decimal_value (Number_toString x) = x"
    by (rule decimal_value_Number_toString)
next
  fix x :: real
  assume h: "0 < x \<and> is_decimal x"
  then have px: "0 < x" and dx: "is_decimal x" by simp_all
  from px dx have "\<exists>f \<le> decimal_places_bound. is_whole (x * 10 ^ f)"
    by (simp add: is_decimal_iff)
  with px have e: "0 < significand x \<and> \<not> 10 dvd significand x
         \<and> x = real (significand x) * 10 powi exponent10 x"
    by (intro positive_exact) simp_all
  from e show "0 < significand x" by simp
  from e show "\<not> 10 dvd significand x" by simp
  from e show "x = real (significand x) * 10 powi exponent10 x" by simp
  from h show "Number_toString x
              = place_point (nat_digits (significand x))
                  (int (length (nat_digits (significand x))) + exponent10 x)"
    by (simp add: Number_toString_def positive_toString_def Let_def)
  from h show "Number_toString (- x) = ''-'' @ Number_toString x"
    by (simp add: Number_toString_def)
next
  fix n
  show "digits_value (nat_digits n) = n"
    by (rule digits_value_nat_digits)
next
  show "Number_toString 0 = ''0''" by (simp add: Number_toString_def)
  show "Number_toString 37 = ''37''" by (simp add: num_eval)
  show "Number_toString (- 122) = ''-122''" by (simp add: num_eval)
  show "Number_toString 8 = ''8''" by (simp add: num_eval)
  show "Number_toString 100000 = ''100000''" by (simp add: num_eval)
  show "Number_toString 37.7749 = ''37.7749''" by (simp add: num_eval)
  show "Number_toString (- 122.4194) = ''-122.4194''" by (simp add: num_eval)
  show "Number_toString 0.5 = ''0.5''" by (simp add: num_eval)
  show "Number_toString 0.000001 = ''0.000001''" by (simp add: num_eval)
  show "Number_toString 0.0000001 = ''1e-7''" by (simp add: num_eval)
  show "Number_toString 0.00000015 = ''1.5e-7''" by (simp add: num_eval)
  show "Number_toString 1000000000000000000000 = ''1e+21''" by (simp add: num_eval)
  show "buildSigningPayload Number_toString scenario_body
       = ''abc123|CHECK_IN|Riverside Market|37|-122|8|2024-01-01T00:00:00Z|aaaaaaaaaaaaaaaaaaaaaaaaaaaaaaaaaaaaaaaaaaaaaaaaaaaaaaaaaaaaaaaa''"
    by (simp add: scenario_body_def unsigned_body_def buildSigningPayload_def
          signing_fields_def event_type_str_def num_eval)
qed

theorem buildSigningPayload_layout_witness:
  "is_decimal 37.7749 \<and> decimal_value ''37.7749'' = 37.7749
   \<and> significand 37.7749 = 377749 \<and> exponent10 37.7749 = - 4
   \<and> (37.7749::real) = real 377749 * 10 powi (- 4)
   \<and> Number_toString (- 37.7749) = ''-37.7749''"
proof -
  have d: "is_decimal 37.7749"
    by (simp add: is_decimal_def num_eval)
  then have h: "(0::real) < 37.7749 \<and> is_decimal 37.7749"
    by simp
  have s: "significand 37.7749 = 377749" and e: "exponent10 37.7749 = - 4"
    by (simp_all add: num_eval)
  have t: "Number_toString 37.7749 = ''37.7749''"
    by (simp add: num_eval)
  note c4 = buildSigningPayload_layout [of scenario_body]
  from c4 d have "decimal_value (Number_toString 37.7749) = 37.7749"
    by blast
  with t have r: "decimal_value ''37.7749'' = 37.7749"
    by (simp only:)
  from c4 h have "(37.7749::real) = real (significand 37.7749) * 10 powi exponent10 37.7749"
    by blast
  then have v: "(37.7749::real) = real 377749 * 10 powi (- 4)"
    by (simp only: s e)
  from c4 h have "Number_toString (- 37.7749) = ''-'' @ Number_toString 37.7749"
    by blast
  with t have n: "Number_toString (- 37.7749) = ''-37.7749''" by simp
  from d r s e v n show ?thesis by blast
qed

section \<open>The canonical payload tells field sets apart\<close>

lemma split_left:
  assumes "c \<notin> set x" and "c \<notin> set x'" and "x @ c # r = x' @ c # r'"
  shows "x = x' \<and> r = r'"
proof -
  have "takeWhile (\<lambda>a. a \<noteq> c) (x @ c # r) = x" "takeWhile (\<lambda>a. a \<noteq> c) (x' @ c # r') = x'"
    using assms(1,2) by (simp_all add: takeWhile_before)
  with assms(3) have "x = x'" by simp
  with assms(3) show ?thesis by simp
qed

lemma split_right:
  assumes "c \<notin> set t" and "c \<notin> set t'" and "r @ c # t = r' @ c # t'"
  shows "r = r' \<and> t = t'"
proof -
  from assms(3) have "rev (r @ c # t) = rev (r' @ c # t')" by simp
  then have "rev t @ c # rev r = rev t' @ c # rev r'" by simp
  with split_left [of c "rev t" "rev t'" "rev r" "rev r'"] assms(1,2)
  show ?thesis by simp
qed

lemma bar_free_event_type: "bar_free (event_type_str t)"
  by (cases t) (simp_all add: bar_free_def event_type_str_def)

lemma event_type_str_inj: "event_type_str s = event_type_str t \<Longrightarrow> s = t"
  by (cases s; cases t) (simp_all add: event_type_str_def)


lemma split_units:
  assumes "utf16_length s = utf16_length s'" and "r @ CHR ''|'' # s = r' @ CHR ''|'' # s'"
  shows "r = r' \<and> s = s'"
proof -
  have u: "utf16_length (a @ CHR ''|'' # b) = utf16_length a + 1 + utf16_length b" for a b
    by (simp add: utf16_length_def utf16_units_def)
  from assms(2) have "(r @ [CHR ''|'']) @ s = (r' @ [CHR ''|'']) @ s'" by simp
  then obtain us where
    "r @ [CHR ''|''] = (r' @ [CHR ''|'']) @ us \<and> s' = us @ s
     \<or> (r @ [CHR ''|'']) @ us = r' @ [CHR ''|''] \<and> s = us @ s'"
    unfolding append_eq_append_conv2 by blast
  then show ?thesis
  proof
    assume h: "r @ [CHR ''|''] = (r' @ [CHR ''|'']) @ us \<and> s' = us @ s"
    show ?thesis
    proof (cases us rule: rev_cases)
      case Nil
      with h show ?thesis by simp
    next
      case (snoc vs c)
      with h have "c = CHR ''|''" by simp
      with snoc h have "utf16_length s' = utf16_length vs + 1 + utf16_length s"
        using u [of vs s] by simp
      with assms(1) show ?thesis by simp
    qed
  next
    assume h: "(r @ [CHR ''|'']) @ us = r' @ [CHR ''|''] \<and> s = us @ s'"
    show ?thesis
    proof (cases us rule: rev_cases)
      case Nil
      with h show ?thesis by simp
    next
      case (snoc vs c)
      with h have "c = CHR ''|''" by simp
      with snoc h have "utf16_length s = utf16_length vs + 1 + utf16_length s'"
        using u [of vs s'] by simp
      with assms(1) show ?thesis by simp
    qed
  qed
qed

lemma eight_fields_inj:
  assumes n: "bar_free n" "bar_free n'" and e: "bar_free e" "bar_free e'"
    and a: "bar_free a" "bar_free a'" and b: "bar_free b" "bar_free b'"
    and c: "bar_free c" "bar_free c'" and t: "bar_free t" "bar_free t'"
    and s: "utf16_length s = utf16_length s'"
    and eq: "join_sep ''|'' [n, e, v, a, b, c, t, s] = join_sep ''|'' [n', e', v', a', b', c', t', s']"
  shows "[n, e, v, a, b, c, t, s] = [n', e', v', a', b', c', t', s']"
proof -
  let ?D = "CHR ''|''"
  from eq have 0: "n @ ?D # (e @ ?D # (v @ ?D # a @ ?D # b @ ?D # c @ ?D # t @ ?D # s))
      = n' @ ?D # (e' @ ?D # (v' @ ?D # a' @ ?D # b' @ ?D # c' @ ?D # t' @ ?D # s'))"
    by simp
  from split_left [OF _ _ 0] n have 1: "n = n'"
    and 2: "e @ ?D # (v @ ?D # a @ ?D # b @ ?D # c @ ?D # t @ ?D # s)
      = e' @ ?D # (v' @ ?D # a' @ ?D # b' @ ?D # c' @ ?D # t' @ ?D # s')"
    by (simp_all add: bar_free_def)
  from split_left [OF _ _ 2] e have 3: "e = e'"
    and 4: "v @ ?D # a @ ?D # b @ ?D # c @ ?D # t @ ?D # s
      = v' @ ?D # a' @ ?D # b' @ ?D # c' @ ?D # t' @ ?D # s'"
    by (simp_all add: bar_free_def)
  from 4 have "(v @ ?D # a @ ?D # b @ ?D # c @ ?D # t) @ ?D # s
      = (v' @ ?D # a' @ ?D # b' @ ?D # c' @ ?D # t') @ ?D # s'"
    by simp
  from split_units [OF s this] have 5: "s = s'"
    and 6: "v @ ?D # a @ ?D # b @ ?D # c @ ?D # t
      = v' @ ?D # a' @ ?D # b' @ ?D # c' @ ?D # t'"
    by blast+
  from 6 have "(v @ ?D # a @ ?D # b @ ?D # c) @ ?D # t = (v' @ ?D # a' @ ?D # b' @ ?D # c') @ ?D # t'"
    by simp
  from split_right [OF _ _ this] t have 7: "t = t'"
    and 8: "v @ ?D # a @ ?D # b @ ?D # c = v' @ ?D # a' @ ?D # b' @ ?D # c'"
    by (simp_all add: bar_free_def)
  from 8 have "(v @ ?D # a @ ?D # b) @ ?D # c = (v' @ ?D # a' @ ?D # b') @ ?D # c'"
    by simp
  from split_right [OF _ _ this] c have 9: "c = c'"
    and 10: "v @ ?D # a @ ?D # b = v' @ ?D # a' @ ?D # b'"
    by (simp_all add: bar_free_def)
  from 10 have "(v @ ?D # a) @ ?D # b = (v' @ ?D # a') @ ?D # b'"
    by simp
  from split_right [OF _ _ this] b have 11: "b = b'"
    and 12: "v @ ?D # a = v' @ ?D # a'"
    by (simp_all add: bar_free_def)
  from split_right [OF _ _ 12] a have 13: "a = a'" and 14: "v = v'"
    by (simp_all add: bar_free_def)
  from 1 3 5 7 9 11 13 14 show ?thesis by simp
qed

text \<open>What reaches \<open>buildSigningPayload\<close>: a nonce that \<open>verifyChallenge\<close> found
  equal to a stored one, and every stored nonce is base64url text; a timestamp that the
  schema admitted.\<close>

lemma b64_no_bar: "b64 n \<noteq> CHR ''|''"
proof -
  have "b64 n \<in> set ''ABCDEFGHIJKLMNOPQRSTUVWXYZabcdefghijklmnopqrstuvwxyz0123456789-_''"
    unfolding b64_def by (rule nth_mem) simp
  then show ?thesis by auto
qed

lemma bar_free_base64url: "bar_free (base64url bs)"
  by (induction bs rule: base64url.induct)
     (simp_all add: bar_free_def b64_no_bar b64_no_bar [symmetric])

lemma bar_free_datetime: "datetime_chars s \<Longrightarrow> bar_free s"
  by (auto simp: datetime_chars_def bar_free_def)

lemma nonces_UPDATE:
  "map c_nonce (server_challenges (UPDATE_challenge_used now cid d))
     = map c_nonce (server_challenges d)"
  by (simp add: UPDATE_challenge_used_def comp_def)

lemma nonces_insertEvent:
  "map c_nonce (server_challenges (snd (insertEvent en now newId visitId b r d)))
     = map c_nonce (server_challenges d)"
proof -
  let ?d1 = "UPDATE_challenge_used now (challengeId b) d"
  have i: "\<And>row d2. INSERT_visit_events en row ?d1 = Inr d2
             \<Longrightarrow> map c_nonce (server_challenges d2) = map c_nonce (server_challenges d)"
    using challenges_INSERT_visit_events nonces_UPDATE by metis
  from verifyChallenge_cases [of now "challengeId b" "challengeNonce b" d]
  show ?thesis
  proof
    assume "\<exists>reason. verifyChallenge now (challengeId b) (challengeNonce b) d = (Inl reason, d)"
    then show ?thesis by (auto simp: insertEvent_def)
  next
    assume "verifyChallenge now (challengeId b) (challengeNonce b) d = (Inr (), ?d1)"
    then show ?thesis using i
      by (simp add: insertEvent_def nonces_UPDATE split: sum.splits)
  qed
qed

lemma nonces_checkIn:
  "map c_nonce (server_challenges (snd (checkIn en now visitId eventId r b d)))
     = map c_nonce (server_challenges d)"
proof (cases "INSERT_visits en
                \<lparr>v_id = visitId, v_vendor_name = trim en (vendorName b), v_created_at = now\<rparr> d")
  case (Inl e)
  then show ?thesis
    by (simp add: checkIn_def split: sum.splits option.splits)
next
  case (Inr d1)
  then have "server_challenges d1 = server_challenges d"
    by (rule challenges_INSERT_visits)
  with nonces_insertEvent [of en now eventId visitId b r d1]
  have "map c_nonce (server_challenges (snd (insertEvent en now eventId visitId b r d1)))
          = map c_nonce (server_challenges d)"
    by simp
  then show ?thesis using Inr
    by (auto simp: checkIn_def split: prod.splits sum.splits option.splits)
qed

lemma nonces_checkOut:
  "map c_nonce (server_challenges (snd (checkOut en now visitId eventId r b d)))
     = map c_nonce (server_challenges d)"
proof -
  have "\<And>vid. map c_nonce (server_challenges (snd (insertEvent en now eventId vid b r d)))
           = map c_nonce (server_challenges d)"
    by (rule nonces_insertEvent)
  then show ?thesis
    by (auto simp: checkOut_def Let_def split: option.splits prod.splits sum.splits)
       (metis snd_conv)+
qed

lemma nonces_bar_free_iff:
  "nonces_bar_free d \<longleftrightarrow> (\<forall>n \<in> set (map c_nonce (server_challenges d)). bar_free n)"
  by (auto simp: nonces_bar_free_def list_all_iff)

lemma nonces_getChallenge:
  "nonces_bar_free d \<Longrightarrow> nonces_bar_free (snd (getChallenge en now newId bytes d))"
  by (auto simp: getChallenge_def createChallenge_def INSERT_server_challenges_def Let_def
        nonces_bar_free_def bar_free_base64url split: sum.splits prod.splits if_splits)

lemma nonces_handle:
  assumes "nonces_bar_free d"
  shows "nonces_bar_free (snd (handle en q d))"
proof (cases q)
  case (GET_challenge now newId bytes)
  with assms show ?thesis by (simp add: nonces_getChallenge)
next
  case (POST_check_in now visitId eventId r b)
  with assms show ?thesis by (simp add: nonces_bar_free_iff nonces_checkIn)
next
  case (POST_check_out now visitId eventId r b)
  with assms show ?thesis by (simp add: nonces_bar_free_iff nonces_checkOut)
qed

lemma nonces_serve: "nonces_bar_free d \<Longrightarrow> nonces_bar_free (serve en qs d)"
  by (induction qs arbitrary: d) (simp_all add: nonces_handle)

lemma nonces_empty: "nonces_bar_free empty_db"
  by (simp add: nonces_bar_free_def empty_db_def)

lemma verifyChallenge_ok_nonce:
  assumes "fst (verifyChallenge now cid nonce d) = Inr ()"
  shows "nonce \<in> set (map c_nonce (server_challenges d))"
proof -
  from assms obtain row where "SELECT_challenge cid d = Some row" "c_nonce row = nonce"
    by (auto simp: verifyChallenge_def challenge_checks_def
          split: option.splits if_splits sum.splits)
  then have "row \<in> set (server_challenges d)"
    by (auto simp: SELECT_challenge_def find_Some_iff)
  with \<open>c_nonce row = nonce\<close> show ?thesis by auto
qed

lemma verified_nonce_bar_free:
  assumes "fst (verifyChallenge now cid nonce (serve en qs empty_db)) = Inr ()"
  shows "bar_free nonce"
  using verifyChallenge_ok_nonce [OF assms] nonces_serve [OF nonces_empty, of en qs]
  by (simp only: nonces_bar_free_iff)

text \<open>Claim C9. The payload is a function of the eight signing fields alone: equal
  fields give equal payloads. And two field sets that the server canonicalizes (each
  admitted by the schema, its numbers doubles, its nonce found equal to a stored one by
  \<open>verifyChallenge\<close>, after any sequences of requests) and that differ in at least one
  of the eight fields give different payloads.\<close>

theorem payload_change_sensitive:
  "(challengeNonce p = challengeNonce q \<and> eventType p = eventType q
      \<and> vendorName p = vendorName q \<and> latitude p = latitude q \<and> longitude p = longitude q
      \<and> accuracyMeters p = accuracyMeters q \<and> capturedAt p = capturedAt q
      \<and> photoSha256 p = photoSha256 q
    \<longrightarrow> buildSigningPayload Number_toString p = buildSigningPayload Number_toString q)
   \<and> (EventSchema_safeParse en p \<and> EventSchema_safeParse en q
      \<and> is_decimal (latitude p) \<and> is_decimal (longitude p) \<and> is_decimal (accuracyMeters p)
      \<and> is_decimal (latitude q) \<and> is_decimal (longitude q) \<and> is_decimal (accuracyMeters q)
      \<and> fst (verifyChallenge now (challengeId p) (challengeNonce p) (serve en qs empty_db))
          = Inr ()
      \<and> fst (verifyChallenge now' (challengeId q) (challengeNonce q) (serve en qs' empty_db))
          = Inr ()
      \<and> (challengeNonce p \<noteq> challengeNonce q \<or> eventType p \<noteq> eventType q
          \<or> vendorName p \<noteq> vendorName q \<or> latitude p \<noteq> latitude q
          \<or> longitude p \<noteq> longitude q \<or> accuracyMeters p \<noteq> accuracyMeters q
          \<or> capturedAt p \<noteq> capturedAt q \<or> photoSha256 p \<noteq> photoSha256 q)
    \<longrightarrow> buildSigningPayload Number_toString p \<noteq> buildSigningPayload Number_toString q)"
proof (intro conjI impI)
  assume "challengeNonce p = challengeNonce q \<and> eventType p = eventType q
      \<and> vendorName p = vendorName q \<and> latitude p = latitude q \<and> longitude p = longitude q
      \<and> accuracyMeters p = accuracyMeters q \<and> capturedAt p = capturedAt q
      \<and> photoSha256 p = photoSha256 q"
  then show "buildSigningPayload Number_toString p = buildSigningPayload Number_toString q"
    by (simp add: buildSigningPayload_def signing_fields_def)
next
  assume h: "EventSchema_safeParse en p \<and> EventSchema_safeParse en q
      \<and> is_decimal (latitude p) \<and> is_decimal (longitude p) \<and> is_decimal (accuracyMeters p)
      \<and> is_decimal (latitude q) \<and> is_decimal (longitude q) \<and> is_decimal (accuracyMeters q)
      \<and> fst (verifyChallenge now (challengeId p) (challengeNonce p) (serve en qs empty_db))
          = Inr ()
      \<and> fst (verifyChallenge now' (challengeId q) (challengeNonce q) (serve en qs' empty_db))
          = Inr ()
      \<and> (challengeNonce p \<noteq> challengeNonce q \<or> eventType p \<noteq> eventType q
          \<or> vendorName p \<noteq> vendorName q \<or> latitude p \<noteq> latitude q
          \<or> longitude p \<noteq> longitude q \<or> accuracyMeters p \<noteq> accuracyMeters q
          \<or> capturedAt p \<noteq> capturedAt q \<or> photoSha256 p \<noteq> photoSha256 q)"
  then have np: "bar_free (challengeNonce p)" and nq: "bar_free (challengeNonce q)"
    using verified_nonce_bar_free by blast+
  from h have tp: "bar_free (capturedAt p)" and tq: "bar_free (capturedAt q)"
    by (simp_all add: EventSchema_safeParse_def bar_free_datetime)
  from h have sl: "utf16_length (photoSha256 p) = utf16_length (photoSha256 q)"
    by (simp add: EventSchema_safeParse_def)
  show "buildSigningPayload Number_toString p \<noteq> buildSigningPayload Number_toString q"
  proof
    assume "buildSigningPayload Number_toString p = buildSigningPayload Number_toString q"
    then have "join_sep ''|''
                 [challengeNonce p, event_type_str (eventType p), vendorName p,
                  Number_toString (latitude p), Number_toString (longitude p),
                  Number_toString (accuracyMeters p), capturedAt p, photoSha256 p]
             = join_sep ''|''
                 [challengeNonce q, event_type_str (eventType q), vendorName q,
                  Number_toString (latitude q), Number_toString (longitude q),
                  Number_toString (accuracyMeters q), capturedAt q, photoSha256 q]"
      by (simp only: buildSigningPayload_def signing_fields_def)
    with np nq tp tq sl
    have "[challengeNonce p, event_type_str (eventType p), vendorName p,
           Number_toString (latitude p), Number_toString (longitude p),
           Number_toString (accuracyMeters p), capturedAt p, photoSha256 p]
        = [challengeNonce q, event_type_str (eventType q), vendorName q,
           Number_toString (latitude q), Number_toString (longitude q),
           Number_toString (accuracyMeters q), capturedAt q, photoSha256 q]"
      by (intro eight_fields_inj) (simp_all add: bar_free_event_type bar_free_Number_toString)
    then have f: "challengeNonce p = challengeNonce q" "eventType p = eventType q"
      "vendorName p = vendorName q"
      "Number_toString (latitude p) = Number_toString (latitude q)"
      "Number_toString (longitude p) = Number_toString (longitude q)"
      "Number_toString (accuracyMeters p) = Number_toString (accuracyMeters q)"
      "capturedAt p = capturedAt q" "photoSha256 p = photoSha256 q"
      by (simp_all add: event_type_str_inj)
    from h f(4) have "latitude p = latitude q" by (intro Number_toString_inj) simp_all
    moreover from h f(5) have "longitude p = longitude q"
      by (intro Number_toString_inj) simp_all
    moreover from h f(6) have "accuracyMeters p = accuracyMeters q"
      by (intro Number_toString_inj) simp_all
    ultimately show False using h f by blast
  qed
qed

theorem payload_change_sensitive_witness:
  "fst (verifyChallenge 1000 demo_cid (base64url minted_bytes) minted_db) = Inr ()
   \<and> challengeNonce minted_body = ''ABCDEFGHIJKLMNOPQRSTUVWXYZabcdef''
   \<and> vendorName minted_body \<noteq> vendorName relabelled_body
   \<and> buildSigningPayload Number_toString minted_body
       \<noteq> buildSigningPayload Number_toString relabelled_body
   \<and> buildSigningPayload Number_toString minted_body
       = buildSigningPayload Number_toString (minted_body\<lparr>photoUrl := ''/uploads/other.jpg''\<rparr>)"
proof -
  let ?p = "minted_body\<lparr>photoUrl := ''/uploads/other.jpg''\<rparr>"
  have n: "base64url minted_bytes = ''ABCDEFGHIJKLMNOPQRSTUVWXYZabcdef''"
    by (simp add: minted_bytes_def b64_def)
  have a: "challengeNonce minted_body = challengeNonce ?p \<and> eventType minted_body = eventType ?p
      \<and> vendorName minted_body = vendorName ?p \<and> latitude minted_body = latitude ?p
      \<and> longitude minted_body = longitude ?p
      \<and> accuracyMeters minted_body = accuracyMeters ?p
      \<and> capturedAt minted_body = capturedAt ?p \<and> photoSha256 minted_body = photoSha256 ?p"
    by simp
  have s: "EventSchema_safeParse demo_env minted_body
           \<and> EventSchema_safeParse demo_env relabelled_body"
    by (simp add: relabelled_body_def minted_body_def n model_defs demo_defs)
  have d: "is_decimal (latitude minted_body) \<and> is_decimal (longitude minted_body)
      \<and> is_decimal (accuracyMeters minted_body) \<and> is_decimal (latitude relabelled_body)
      \<and> is_decimal (longitude relabelled_body) \<and> is_decimal (accuracyMeters relabelled_body)"
    by (simp add: relabelled_body_def minted_body_def unsigned_body_def is_decimal_def num_eval)
  have v: "fst (verifyChallenge 1000 demo_cid (base64url minted_bytes) minted_db) = Inr ()"
    by (simp add: minted_db_def n model_defs demo_defs)
  have i: "challengeId minted_body = demo_cid \<and> challengeId relabelled_body = demo_cid
      \<and> challengeNonce minted_body = base64url minted_bytes
      \<and> challengeNonce relabelled_body = base64url minted_bytes"
    by (simp add: relabelled_body_def minted_body_def unsigned_body_def)
  from v i have vp: "fst (verifyChallenge 1000 (challengeId minted_body)
                       (challengeNonce minted_body)
                       (serve demo_env [GET_challenge 0 demo_cid minted_bytes] empty_db)) = Inr ()"
    and vq: "fst (verifyChallenge 1000 (challengeId relabelled_body)
                       (challengeNonce relabelled_body)
                       (serve demo_env [GET_challenge 0 demo_cid minted_bytes] empty_db)) = Inr ()"
    by (simp_all add: minted_db_def)
  have c: "vendorName minted_body \<noteq> vendorName relabelled_body"
    by (simp add: relabelled_body_def minted_body_def unsigned_body_def)
  note t = payload_change_sensitive [of minted_body]
  from t [of ?p] a
  have 1: "buildSigningPayload Number_toString minted_body
             = buildSigningPayload Number_toString ?p"
    by blast
  from t [of relabelled_body demo_env 1000 "[GET_challenge 0 demo_cid minted_bytes]" 1000
            "[GET_challenge 0 demo_cid minted_bytes]"] s d vp vq c
  have 2: "buildSigningPayload Number_toString minted_body
             \<noteq> buildSigningPayload Number_toString relabelled_body"
    by blast
  from v i n c 1 2 show ?thesis by simp
qed

end
